theory Spec2Isabelle
  imports Complex_Main "HOL-Library.Char_ord" "HOL-Library.List_Lexorder" "HOL-Library.AList"
begin

section \<open>Python values, exceptions and strings\<close>

text \<open>
  Documents, transcript items and index mappings are Python dictionaries read from and
  written as JSON. A dictionary is an association list in insertion order; lookup is
  \<open>map_of\<close>, assignment is \<open>AList.update\<close> (an existing key keeps its place, a new key
  is appended), as in Python.
\<close>

datatype json =
    JNull
  | JBool bool
  | JInt int
  | JFloat real
  | JStr string
  | JArr "json list"
  | JObj "(string \<times> json) list"

type_synonym doc = "(string \<times> json) list"

datatype py_error =
    KeyError
  | TypeError
  | AttributeError
  | ValueError
  | IndexError
  | OSError
  | EOFError
  | EngineError
  | ModelError

text \<open>\<open>dict.get(key)\<close>: the value, or \<open>None\<close> when the key is missing.\<close>

definition dict_get :: "doc \<Rightarrow> string \<Rightarrow> json" where
  "dict_get d k = (case map_of d k of None \<Rightarrow> JNull | Some v \<Rightarrow> v)"

text \<open>
  A string is a list of characters, and a character is a code point below 256.
  \<open>str.strip()\<close> removes the characters for which \<open>str.isspace()\<close> holds: tab, line
  feed, vertical tab, form feed, carriage return, the four separators 0x1C to 0x1F, the
  space, the next-line character U+0085 and the no-break space U+00A0.
\<close>

definition is_space :: "char \<Rightarrow> bool" where
  "is_space c =
     (let n = (of_char c :: nat)
      in (9 \<le> n \<and> n \<le> 13) \<or> (28 \<le> n \<and> n \<le> 32) \<or> n = 133 \<or> n = 160)"

definition strip :: "string \<Rightarrow> string" where
  "strip s = rev (dropWhile is_space (rev (dropWhile is_space s)))"

definition endswith :: "string \<Rightarrow> string \<Rightarrow> bool" where
  "endswith s suffix = (length suffix \<le> length s \<and> drop (length s - length suffix) s = suffix)"

definition is_digit :: "char \<Rightarrow> bool" where
  "is_digit c = (let n = (of_char c :: nat) in 48 \<le> n \<and> n \<le> 57)"

definition digit_val :: "char \<Rightarrow> nat" where
  "digit_val c = of_char c - 48"

text \<open>
  \<open>int(s)\<close> in base ten, as CPython reads a string: whitespace on both sides, an optional
  sign, then decimal digits, where single underscores may stand between digits.
  The whitespace of \<open>int\<close> is not that of \<open>strip\<close>: it is tab, line feed, vertical tab,
  form feed, carriage return and the space, and the two blanks U+0085 and U+00A0
  (which \<open>int\<close> first rewrites to a space); the separators 0x1C to 0x1F are not accepted.
  No character from 0x80 on is a decimal digit. A numeral of more than 4300 digits is
  refused (the default limit of \<open>sys.set_int_max_str_digits\<close>, CPython 3.11 and the
  security releases of the earlier versions). \<open>None\<close> is \<open>ValueError\<close>.
\<close>

definition is_int_space :: "char \<Rightarrow> bool" where
  "is_int_space c =
     (let n = (of_char c :: nat) in (9 \<le> n \<and> n \<le> 13) \<or> n = 32 \<or> n = 133 \<or> n = 160)"

definition max_str_digits :: nat where
  "max_str_digits = 4300"

fun parse_digits :: "nat \<Rightarrow> string \<Rightarrow> nat option" where
  "parse_digits acc [] = Some acc"
| "parse_digits acc [c] = (if is_digit c then Some (10 * acc + digit_val c) else None)"
| "parse_digits acc (c # d # cs) =
     (if is_digit c then parse_digits (10 * acc + digit_val c) (d # cs)
      else if c = CHR ''_'' \<and> is_digit d then parse_digits (10 * acc + digit_val d) cs
      else None)"

definition parse_nat :: "string \<Rightarrow> nat option" where
  "parse_nat s =
     (case s of
        [] \<Rightarrow> None
      | c # cs \<Rightarrow>
          if is_digit c \<and> length (filter is_digit s) \<le> max_str_digits
          then parse_digits (digit_val c) cs
          else None)"

definition py_int :: "string \<Rightarrow> int option" where
  "py_int s =
     (case rev (dropWhile is_int_space (rev (dropWhile is_int_space s))) of
        [] \<Rightarrow> None
      | c # cs \<Rightarrow>
          if c = CHR ''-'' then map_option (\<lambda>n. - int n) (parse_nat cs)
          else if c = CHR ''+'' then map_option int (parse_nat cs)
          else map_option int (parse_nat (c # cs)))"

section \<open>Paths (\<open>os.path\<close> on a POSIX system)\<close>

definition os_path_basename :: "string \<Rightarrow> string" where
  "os_path_basename p = rev (takeWhile (\<lambda>c. c \<noteq> CHR ''/'') (rev p))"

text \<open>
  \<open>os.path.splitext\<close>: the extension starts at the last dot of the last path component,
  unless only dots stand before it in that component.
\<close>

definition os_path_splitext :: "string \<Rightarrow> string \<times> string" where
  "os_path_splitext p =
     (let name = os_path_basename p;
          ext = rev (takeWhile (\<lambda>c. c \<noteq> CHR ''.'') (rev name));
          stem = take (length name - length ext - 1) name
      in if CHR ''.'' \<in> set name \<and> dropWhile (\<lambda>c. c = CHR ''.'') stem \<noteq> []
         then (take (length p - length ext - 1) p, CHR ''.'' # ext)
         else (p, []))"

definition os_path_join :: "string \<Rightarrow> string \<Rightarrow> string" where
  "os_path_join a b =
     (if b \<noteq> [] \<and> hd b = CHR ''/'' then b
      else if a = [] \<or> last a = CHR ''/'' then a @ b
      else a @ ''/'' @ b)"

section \<open>The engine and its collaborators\<close>

text \<open>
  The configuration and run state of \<open>SpeechRetrievalES\<close>: the fields set by
  \<open>__init__\<close>. \<open>indexed_files\<close> is the in-memory fingerprint map, from path to stored hash.
\<close>

record engine =
  context_json_dir :: string
  base_keyframe_dir :: string
  index_name :: string
  use_semantic :: bool
  force_reindex :: bool
  index_tracker_file :: string
  indexed_files :: "string \<rightharpoonup> string"

text \<open>
  A directory of the transcript tree as \<open>os.walk\<close> reads it: the file names and the
  subdirectories, each in the order in which the directory listing returns them.
  A keyframe path is missing, exists without being a directory that can be listed, or is
  a directory with its listing.
\<close>

datatype tree = Tree "string list" "(string \<times> tree) list"

datatype fs_node = Missing | NotListable | Directory "string list"

text \<open>
  Everything outside the repository that a run depends on. \<open>md5\<close> is the hexadecimal MD5
  digest of \<open>hashlib\<close>; \<open>readable\<close> gives the bytes of each file that can be opened and
  read (\<open>None\<close>: \<open>open\<close> or \<open>read\<close> raises); \<open>json_load\<close> is \<open>json.load\<close> on those bytes
  (\<open>None\<close>: decoding or parsing raises); \<open>encode\<close> is \<open>model.encode(...).tolist()\<close>
  (\<open>None\<close>: it raises); \<open>es_index_ok\<close> tells whether the index engine accepts a document
  (\<open>False\<close>: \<open>es.index\<close> raises); \<open>es_search\<close> is \<open>es.search\<close> on an index name and a request,
  returning the \<open>_source\<close> of the hits or raising; \<open>keyframe_node\<close> is what stands at a path
  of the keyframe hierarchy.
\<close>

record world =
  md5 :: "string \<Rightarrow> string"
  readable :: "string \<rightharpoonup> string"
  source_tree :: tree
  json_load :: "string \<Rightarrow> json option"
  encode :: "string \<Rightarrow> real list option"
  es_index_ok :: "doc \<Rightarrow> bool"
  es_search :: "string \<Rightarrow> json \<Rightarrow> py_error + doc list"
  keyframe_node :: "string \<Rightarrow> fs_node"

section \<open>Fingerprint store\<close>

text \<open>\<open>get_file_hash\<close> feeds the file to MD5 in chunks of 4096 bytes; any exception gives \<open>""\<close>.\<close>

function chunks :: "nat \<Rightarrow> 'a list \<Rightarrow> 'a list list" where
  "chunks n xs = (if n = 0 \<or> xs = [] then [] else take n xs # chunks n (drop n xs))"
  by pat_completeness auto
termination
  by (relation "measure (\<lambda>(n, xs). length xs)") auto

declare chunks.simps [simp del]

definition get_file_hash :: "world \<Rightarrow> string \<Rightarrow> string" where
  "get_file_hash w filepath =
     (case readable w filepath of
        None \<Rightarrow> []
      | Some bytes \<Rightarrow> md5 w (concat (chunks 4096 bytes)))"

text \<open>\<open>SpeechRetrievalES._should_index_file\<close>.\<close>

definition should_index_file :: "world \<Rightarrow> engine \<Rightarrow> string \<Rightarrow> bool" where
  "should_index_file w self filepath =
     (if force_reindex self then True
      else
        let current_hash = get_file_hash w filepath
        in case indexed_files self filepath of
             Some stored_hash \<Rightarrow> if stored_hash = current_hash then False else True
           | None \<Rightarrow> True)"

text \<open>
  \<open>SpeechRetrievalES._save_indexed_files\<close>. The disk maps a path to the content of the
  file there. \<open>open(tracker, 'w')\<close> truncates the file; \<open>json.dump\<close> then writes the
  serialized map into it, which reaches the disk in pieces (\<open>pieces\<close>, whose
  concatenation is the serialized text). \<open>save_states\<close> lists the disk after the
  \<open>open\<close> and after each piece: the states an interruption can leave behind, the last one
  being the state after a completed save. An exception (\<open>open\<close> fails) is caught and
  leaves the disk as it was.
\<close>

definition save_states :: "(string \<rightharpoonup> string) \<Rightarrow> string \<Rightarrow> string list \<Rightarrow> (string \<rightharpoonup> string) list" where
  "save_states disk tracker pieces =
     map (\<lambda>k. disk(tracker \<mapsto> concat (take k pieces))) [0..<Suc (length pieces)]"

definition save_indexed_files ::
  "((string \<rightharpoonup> string) \<Rightarrow> string list) \<Rightarrow> bool \<Rightarrow> (string \<rightharpoonup> string) \<Rightarrow> engine \<Rightarrow> (string \<rightharpoonup> string)" where
  "save_indexed_files json_dump can_open disk self =
     (if can_open
      then last (save_states disk (index_tracker_file self) (json_dump (indexed_files self)))
      else disk)"

section \<open>Source corpus scanner and sync engine\<close>

text \<open>\<open>os.walk\<close>, top down: a directory, then its subdirectories in listing order.\<close>

fun os_walk :: "string \<Rightarrow> tree \<Rightarrow> (string \<times> string list \<times> string list) list" where
  "os_walk top_dir (Tree files subdirs) =
     (top_dir, map fst subdirs, files) #
       concat (map (\<lambda>sub. os_walk (os_path_join top_dir (fst sub)) (snd sub)) subdirs)"

text \<open>The first loop of \<open>_index_data\<close>, which collects \<open>all_files\<close>.\<close>

definition scan :: "string \<Rightarrow> tree \<Rightarrow> string list" where
  "scan top_dir t =
     concat (map (\<lambda>(root, dirs, files).
                    map (os_path_join root) (filter (\<lambda>f. endswith f ''.json'') files))
                 (os_walk top_dir t))"

text \<open>
  The body of the loop over the items of one file. The result is the list of documents
  passed to \<open>es.index\<close>, in order, and whether the loop ended without an exception.
\<close>

definition make_doc :: "doc \<Rightarrow> string \<Rightarrow> string \<Rightarrow> string \<Rightarrow> nat \<Rightarrow> doc" where
  "make_doc item txt full_path video_name idx =
     [(''text'', JStr txt),
      (''start_frame'', dict_get item ''start_frame''),
      (''end_frame'', dict_get item ''end_frame''),
      (''start_sec'', dict_get item ''start_sec''),
      (''end_sec'', dict_get item ''end_sec''),
      (''file'', JStr full_path),
      (''video_name'', JStr video_name),
      (''L'', JInt (int idx))]"

text \<open>\<open>item.get("text", "").strip()\<close>; \<open>None\<close> is the \<open>AttributeError\<close> of a value without
  \<open>get\<close> or \<open>strip\<close>.\<close>

definition item_text :: "json \<Rightarrow> string option" where
  "item_text item =
     (case item of
        JObj d \<Rightarrow>
          (case map_of d ''text'' of
             None \<Rightarrow> Some (strip [])
           | Some (JStr s) \<Rightarrow> Some (strip s)
           | Some _ \<Rightarrow> None)
      | _ \<Rightarrow> None)"

definition item_dict :: "json \<Rightarrow> doc" where
  "item_dict item = (case item of JObj d \<Rightarrow> d | _ \<Rightarrow> [])"

fun index_items :: "world \<Rightarrow> engine \<Rightarrow> string \<Rightarrow> string \<Rightarrow> nat \<Rightarrow> json list \<Rightarrow> doc list \<times> bool" where
  "index_items w self full_path video_name idx [] = ([], True)"
| "index_items w self full_path video_name idx (item # rest) =
     (case item_text item of
        None \<Rightarrow> ([], False)
      | Some txt \<Rightarrow>
          if txt = [] then index_items w self full_path video_name (Suc idx) rest
          else
            let d0 = make_doc (item_dict item) txt full_path video_name idx
            in (case (if use_semantic self
                      then map_option (\<lambda>v. AList.update ''embedding'' (JArr (map JFloat v)) d0)
                             (encode w txt)
                      else Some d0) of
                  None \<Rightarrow> ([], False)
                | Some d \<Rightarrow>
                    (if es_index_ok w d
                     then (d # fst (index_items w self full_path video_name (Suc idx) rest),
                           snd (index_items w self full_path video_name (Suc idx) rest))
                     else ([d], False))))"

text \<open>\<open>len(data)\<close> and the iteration over \<open>data\<close>: a list gives its elements, a dictionary
  its keys, a string its characters; anything else raises \<open>TypeError\<close>.\<close>

definition items_of :: "json \<Rightarrow> json list option" where
  "items_of data =
     (case data of
        JArr xs \<Rightarrow> Some xs
      | JObj d \<Rightarrow> Some (map (\<lambda>kv. JStr (fst kv)) d)
      | JStr s \<Rightarrow> Some (map (\<lambda>c. JStr [c]) s)
      | _ \<Rightarrow> None)"

text \<open>The \<open>try\<close> block for one file of \<open>files_to_index\<close>.\<close>

definition index_file :: "world \<Rightarrow> engine \<Rightarrow> string \<Rightarrow> doc list \<times> bool" where
  "index_file w self full_path =
     (let video_name = fst (os_path_splitext (os_path_basename full_path))
      in case readable w full_path of
           None \<Rightarrow> ([], False)
         | Some bytes \<Rightarrow>
             (case json_load w bytes of
                None \<Rightarrow> ([], False)
              | Some data \<Rightarrow>
                  (case items_of data of
                     None \<Rightarrow> ([], False)
                   | Some items \<Rightarrow> index_items w self full_path video_name 0 items)))"

text \<open>
  The loop over \<open>files_to_index\<close>. The state is the fingerprint map, the documents passed
  to \<open>es.index\<close> so far and \<open>indexed_count\<close>. A file whose block raised keeps its old entry.
\<close>

fun index_files ::
  "world \<Rightarrow> engine \<Rightarrow> string list \<Rightarrow> (string \<rightharpoonup> string) \<times> doc list \<times> nat
     \<Rightarrow> (string \<rightharpoonup> string) \<times> doc list \<times> nat" where
  "index_files w self [] st = st"
| "index_files w self (full_path # rest) (store, submitted, indexed_count) =
     (let r = index_file w self full_path
      in index_files w self rest
           (if snd r
            then (store(full_path \<mapsto> get_file_hash w full_path), submitted @ fst r, Suc indexed_count)
            else (store, submitted @ fst r, indexed_count)))"

record sync_run =
  engine_after :: engine
  submitted :: "doc list"
  indexed_count :: nat
  saved :: "(string \<rightharpoonup> string) option"

text \<open>\<open>SpeechRetrievalES._index_data\<close>. \<open>saved\<close> is the map handed to
  \<open>_save_indexed_files\<close>, \<open>None\<close> when the run returns before it.\<close>

definition index_data :: "world \<Rightarrow> engine \<Rightarrow> sync_run" where
  "index_data w self =
     (let all_files = scan (context_json_dir self) (source_tree w);
          files_to_index = filter (should_index_file w self) all_files
      in if length files_to_index = 0
         then \<lparr>engine_after = self, submitted = [], indexed_count = 0, saved = None\<rparr>
         else
           let st = index_files w self files_to_index (indexed_files self, [], 0)
           in \<lparr>engine_after = self\<lparr>indexed_files := fst st\<rparr>,
               submitted = fst (snd st),
               indexed_count = snd (snd st),
               saved = Some (fst st)\<rparr>)"

text \<open>The vector dimension that \<open>_setup_index\<close> writes into the schema of a new index.\<close>

definition embedding_dims :: nat where
  "embedding_dims = 768"

text \<open>
  The files of a transcript tree, independently of the walk: \<open>in_tree top_dir t dir name\<close>
  holds when the directory \<open>dir\<close>, reached from \<open>top_dir\<close>, lists the file \<open>name\<close>.
\<close>

inductive in_tree :: "string \<Rightarrow> tree \<Rightarrow> string \<Rightarrow> string \<Rightarrow> bool" where
  here: "name \<in> set files \<Longrightarrow> in_tree top_dir (Tree files subdirs) top_dir name"
| below: "(n, sub) \<in> set subdirs \<Longrightarrow> in_tree (os_path_join top_dir n) sub dir name \<Longrightarrow>
          in_tree top_dir (Tree files subdirs) dir name"

section \<open>Keyframe range mapper\<close>

text \<open>
  The comparison \<open>start_f <= frame_num <= end_f\<close> of a document field with an integer:
  numbers compare by value (a Boolean counts as 0 or 1); \<open>None\<close>, strings, lists and
  dictionaries raise \<open>TypeError\<close>. The chain stops after a false first comparison.
\<close>

definition json_number :: "json \<Rightarrow> real option" where
  "json_number v =
     (case v of
        JInt i \<Rightarrow> Some (real_of_int i)
      | JFloat x \<Rightarrow> Some x
      | JBool b \<Rightarrow> Some (if b then 1 else 0)
      | _ \<Rightarrow> None)"

definition in_frame_range :: "json \<Rightarrow> json \<Rightarrow> int \<Rightarrow> py_error + bool" where
  "in_frame_range start_f end_f frame_num =
     (case json_number start_f of
        None \<Rightarrow> Inl TypeError
      | Some lo \<Rightarrow>
          if lo \<le> real_of_int frame_num
          then (case json_number end_f of
                  None \<Rightarrow> Inl TypeError
                | Some hi \<Rightarrow> Inr (real_of_int frame_num \<le> hi))
          else Inr False)"

definition is_image_name :: "string \<Rightarrow> bool" where
  "is_image_name fname = (endswith fname ''.webp'' \<or> endswith fname ''.jpg'' \<or> endswith fname ''.png'')"

text \<open>The loop over the sorted listing. A name whose stem is not an integer is skipped.\<close>

fun collect_frames :: "string \<Rightarrow> json \<Rightarrow> json \<Rightarrow> string list \<Rightarrow> py_error + string list" where
  "collect_frames keyframe_folder start_f end_f [] = Inr []"
| "collect_frames keyframe_folder start_f end_f (fname # rest) =
     (if is_image_name fname
      then (case py_int (fst (os_path_splitext fname)) of
              None \<Rightarrow> collect_frames keyframe_folder start_f end_f rest
            | Some frame_num \<Rightarrow>
                (case in_frame_range start_f end_f frame_num of
                   Inl e \<Rightarrow> Inl e
                 | Inr inside \<Rightarrow>
                     (case collect_frames keyframe_folder start_f end_f rest of
                        Inl e \<Rightarrow> Inl e
                      | Inr frame_paths \<Rightarrow>
                          Inr (if inside then os_path_join keyframe_folder fname # frame_paths
                               else frame_paths))))
      else collect_frames keyframe_folder start_f end_f rest)"

text \<open>The folder \<open>base_keyframe_dir/<k_folder>/<video_name>\<close> derived from the \<open>file\<close> field
  (\<open>base_dir\<close> is the argument \<open>base_keyframe_dir\<close>).\<close>

definition keyframe_folder_of :: "string \<Rightarrow> string \<Rightarrow> string" where
  "keyframe_folder_of base_dir file_field =
     (let json_file = os_path_basename file_field;
          video_name = fst (os_path_splitext json_file);
          k_folder = takeWhile (\<lambda>c. c \<noteq> CHR ''_'') video_name
      in os_path_join (os_path_join base_dir k_folder) video_name)"

text \<open>
  \<open>list_keyframes_in_range\<close>. \<open>entry["file"]\<close>, \<open>entry["start_frame"]\<close> and
  \<open>entry["end_frame"]\<close> raise \<open>KeyError\<close> when missing; a \<open>file\<close> that is not a string
  raises \<open>TypeError\<close>; \<open>os.listdir\<close> raises \<open>OSError\<close> on a path that exists without being
  a directory that can be listed.
\<close>

definition list_keyframes_in_range :: "world \<Rightarrow> doc \<Rightarrow> string \<Rightarrow> py_error + string list" where
  "list_keyframes_in_range w entry base_dir =
     (case map_of entry ''file'' of
        None \<Rightarrow> Inl KeyError
      | Some (JStr file_field) \<Rightarrow>
          (let keyframe_folder = keyframe_folder_of base_dir file_field
           in case map_of entry ''start_frame'' of
                None \<Rightarrow> Inl KeyError
              | Some start_f \<Rightarrow>
                  (case map_of entry ''end_frame'' of
                     None \<Rightarrow> Inl KeyError
                   | Some end_f \<Rightarrow>
                       (case keyframe_node w keyframe_folder of
                          Missing \<Rightarrow> Inr []
                        | NotListable \<Rightarrow> Inl OSError
                        | Directory names \<Rightarrow>
                            collect_frames keyframe_folder start_f end_f (sort names))))
      | Some _ \<Rightarrow> Inl TypeError)"

text \<open>
  The derived directory in the words of the specification, to be compared with the folder
  that the code computes: under the keyframe root, the collection folder (the part of the
  video name before its first underscore), and under it the folder of the video name.
  As in a path, a root that is empty or ends with the separator gets no further separator,
  and an empty collection folder adds nothing.
\<close>

definition keyframe_dir_spec :: "string \<Rightarrow> string \<Rightarrow> string" where
  "keyframe_dir_spec keyframe_root video_name =
     (let collection = takeWhile (\<lambda>c. c \<noteq> CHR ''_'') video_name
      in (if keyframe_root = [] \<or> last keyframe_root = CHR ''/'' then keyframe_root
          else keyframe_root @ ''/'') @
         (if collection = [] then [] else collection @ ''/'') @ video_name)"

section \<open>Retrieval engine\<close>

text \<open>The two request bodies of the lexical path, and the keyword arguments of the vector path.\<close>

definition keyword_query :: "string \<Rightarrow> int \<Rightarrow> bool \<Rightarrow> json" where
  "keyword_query query k use_fuzzy =
     (if use_fuzzy
      then JObj [(''size'', JInt k),
                 (''query'', JObj [(''match'', JObj [(''text'',
                    JObj [(''query'', JStr query), (''fuzziness'', JStr ''AUTO''),
                          (''prefix_length'', JInt 1), (''max_expansions'', JInt 50)])])])]
      else JObj [(''size'', JInt k),
                 (''query'', JObj [(''match'', JObj [(''text'', JStr query)])])])"

definition semantic_query :: "real list \<Rightarrow> int \<Rightarrow> json" where
  "semantic_query query_vec k =
     JObj [(''size'', JInt k),
           (''knn'', JObj [(''field'', JStr ''embedding''), (''query_vector'', JArr (map JFloat query_vec)),
                           (''k'', JInt k), (''num_candidates'', JInt 100)])]"

text \<open>
  \<open>SpeechRetrievalES.search\<close>. The result dictionary maps a mode to its documents. The
  lexical call and \<open>model.encode\<close> stand outside the \<open>try\<close>; only the vector call to the
  index stands inside it.
\<close>

definition search :: "world \<Rightarrow> engine \<Rightarrow> string \<Rightarrow> int \<Rightarrow> bool \<Rightarrow> py_error + (string \<times> doc list) list" where
  "search w self query k use_fuzzy =
     (case es_search w (index_name self) (keyword_query query k use_fuzzy) of
        Inl e \<Rightarrow> Inl e
      | Inr keyword_hits \<Rightarrow>
          (let results = AList.update ''keyword'' keyword_hits []
           in if use_semantic self
              then (case encode w query of
                      None \<Rightarrow> Inl ModelError
                    | Some query_vec \<Rightarrow>
                        (case es_search w (index_name self) (semantic_query query_vec k) of
                           Inr semantic_hits \<Rightarrow> Inr (AList.update ''semantic'' semantic_hits results)
                         | Inl e \<Rightarrow> Inr (AList.update ''semantic'' [] results)))
              else Inr results))"

text \<open>The inner loop of \<open>search_with_frames\<close>: each result gets \<open>frames\<close> and \<open>num_frames\<close>.\<close>

fun attach_frames :: "world \<Rightarrow> string \<Rightarrow> doc list \<Rightarrow> py_error + doc list" where
  "attach_frames w base [] = Inr []"
| "attach_frames w base (r # rest) =
     (case list_keyframes_in_range w r base of
        Inl e \<Rightarrow> Inl e
      | Inr frames \<Rightarrow>
          (case attach_frames w base rest of
             Inl e \<Rightarrow> Inl e
           | Inr out \<Rightarrow>
               Inr (AList.update ''num_frames'' (JInt (int (length frames)))
                      (AList.update ''frames'' (JArr (map JStr frames)) r) # out)))"

text \<open>\<open>results.get(mode, [])\<close>.\<close>

definition results_get :: "(string \<times> doc list) list \<Rightarrow> string \<Rightarrow> doc list" where
  "results_get results mode = (case map_of results mode of None \<Rightarrow> [] | Some rs \<Rightarrow> rs)"

definition search_with_frames ::
  "world \<Rightarrow> engine \<Rightarrow> string \<Rightarrow> int \<Rightarrow> bool \<Rightarrow> py_error + (string \<times> doc list) list" where
  "search_with_frames w self query k use_fuzzy =
     (case search w self query k use_fuzzy of
        Inl e \<Rightarrow> Inl e
      | Inr results \<Rightarrow>
          (case attach_frames w (base_keyframe_dir self) (results_get results ''semantic'') of
             Inl e \<Rightarrow> Inl e
           | Inr semantic_out \<Rightarrow>
               (case attach_frames w (base_keyframe_dir self) (results_get results ''keyword'') of
                  Inl e \<Rightarrow> Inl e
                | Inr keyword_out \<Rightarrow>
                    Inr (AList.update ''keyword'' keyword_out
                           (AList.update ''semantic'' semantic_out [])))))"

section \<open>The index engine as the portability scripts see it\<close>

text \<open>
  An index holds its mappings and its documents. The cluster answers \<open>ping\<close> with \<open>alive\<close>,
  knows its indices by name, and refuses a search request whose \<open>size\<close> exceeds
  \<open>max_result_window\<close>. The scripts are modelled against a cluster that no one else
  writes to while they run.
\<close>

record es_index =
  mappings :: json
  docs :: "doc list"

record cluster =
  alive :: bool
  indices :: "string \<rightharpoonup> es_index"
  max_result_window :: nat

text \<open>
  The scroll protocol: \<open>es.search(..., scroll, size)\<close> and the following \<open>es.scroll\<close> calls
  return the documents in pages of \<open>size\<close> hits (\<open>page_size\<close>), then a page without hits. A scroll
  request of size 0, or of a size beyond the result window, is rejected.
\<close>

definition scroll_pages :: "cluster \<Rightarrow> es_index \<Rightarrow> nat \<Rightarrow> py_error + doc list list" where
  "scroll_pages c ix page_size =
     (if page_size = 0 \<or> max_result_window c < page_size then Inl EngineError
      else Inr (chunks page_size (docs ix) @ [[]]))"

section \<open>Export\<close>

text \<open>The file name \<open>f"batch_{batch_num:04d}.json"\<close>.\<close>

definition digit_char :: "nat \<Rightarrow> char" where
  "digit_char n = char_of (48 + n)"

function dec :: "nat \<Rightarrow> string" where
  "dec n = (if n < 10 then [digit_char n] else dec (n div 10) @ [digit_char (n mod 10)])"
  by pat_completeness auto
termination
  by (relation "measure (\<lambda>n. n)") auto

declare dec.simps [simp del]

definition batch_file_name :: "nat \<Rightarrow> string" where
  "batch_file_name batch_num =
     ''batch_'' @ replicate (4 - length (dec batch_num)) CHR ''0'' @ dec batch_num @ ''.json''"

text \<open>\<open>if 'embedding' in doc: doc['embedding'] = None\<close>.\<close>

definition null_embedding :: "doc \<Rightarrow> doc" where
  "null_embedding d =
     (if map_of d ''embedding'' \<noteq> None then AList.update ''embedding'' JNull d else d)"

text \<open>
  The \<open>while hits\<close> loop over the pages of the scroll. The result is the list of batch
  files written, each with its path and its documents, and the final \<open>batch_num\<close> and
  \<open>exported\<close>.
\<close>

fun export_batches ::
  "string \<Rightarrow> nat \<Rightarrow> nat \<Rightarrow> doc list list \<Rightarrow> (string \<times> doc list) list \<times> nat \<times> nat" where
  "export_batches output_dir batch_num exported [] = ([], batch_num, exported)"
| "export_batches output_dir batch_num exported (hits # responses) =
     (if hits = [] then ([], batch_num, exported)
      else
        let batch_file = os_path_join output_dir (batch_file_name batch_num);
            batch_data = map null_embedding hits;
            later = export_batches output_dir (batch_num + 1) (exported + length hits) responses
        in ((batch_file, batch_data) # fst later, snd later))"

record export_output =
  mapping_file :: "string \<times> json"
  batch_files :: "(string \<times> doc list) list"
  metadata_file :: "string \<times> doc"
  exported_total :: nat

text \<open>
  \<open>export_index_to_files\<close>. \<open>Inr None\<close> is the early return (no connection, or no such
  index), \<open>Inl\<close> an exception of the index engine. Creating the directory and writing
  the files are taken to succeed.
\<close>

definition export_index_to_files ::
  "cluster \<Rightarrow> string \<Rightarrow> string \<Rightarrow> nat \<Rightarrow> py_error + export_output option" where
  "export_index_to_files c index output_dir batch_size =
     (if \<not> alive c then Inr None
      else case indices c index of
             None \<Rightarrow> Inr None
           | Some ix \<Rightarrow>
               (let mapping = JObj [(index, JObj [(''mappings'', mappings ix)])];
                    total_docs = length (docs ix)
                in case scroll_pages c ix batch_size of
                     Inl e \<Rightarrow> Inl e
                   | Inr responses \<Rightarrow>
                       (let done = export_batches output_dir 0 0 responses;
                            metadata =
                              [(''index_name'', JStr index),
                               (''total_documents'', JInt (int total_docs)),
                               (''total_batches'', JInt (int (fst (snd done)))),
                               (''batch_size'', JInt (int batch_size)),
                               (''note'', JStr ''embedding=None will be regenerated on import'')]
                        in Inr (Some \<lparr>mapping_file = (os_path_join output_dir ''mapping.json'', mapping),
                                      batch_files = fst done,
                                      metadata_file = (os_path_join output_dir ''metadata.json'', metadata),
                                      exported_total = snd (snd done)\<rparr>))))"

text \<open>The number that a string of decimal digits denotes, to read a batch number back from
  its file name.\<close>

definition undec :: "string \<Rightarrow> nat" where
  "undec s = foldl (\<lambda>a ch. 10 * a + digit_val ch) 0 s"

section \<open>Import\<close>

text \<open>
  What the import reads besides the cluster: whether \<open>input_dir\<close> exists, the parsed JSON
  content of each file of the export (\<open>None\<close>: no such file), the line the operator types
  at the prompt (\<open>None\<close>: end of input, \<open>input\<close> raises \<open>EOFError\<close>), whether the engine
  accepts the creation of the index, and the model that the import loads:
  \<open>model_encode\<close> is \<open>model.encode(text).tolist()\<close> for the \<open>text\<close> value of a document
  (\<open>None\<close>: the call raises).
\<close>

record import_env =
  input_dir_exists :: bool
  input_files :: "string \<rightharpoonup> json"
  answer :: "string option"
  create_ok :: bool
  model_encode :: "json \<Rightarrow> json option"

datatype import_outcome = Returned | Cancelled | Raised py_error | Imported nat nat

text \<open>\<open>str.lower()\<close>: the capital letters A to Z, and U+00C0 to U+00DE without the
  multiplication sign U+00D7, move up by 32; every other character stays.\<close>

definition lower_char :: "char \<Rightarrow> char" where
  "lower_char ch =
     (let n = (of_char ch :: nat)
      in if (65 \<le> n \<and> n \<le> 90) \<or> (192 \<le> n \<and> n \<le> 222 \<and> n \<noteq> 215) then char_of (n + 32) else ch)"

definition py_lower :: "string \<Rightarrow> string" where
  "py_lower s = map lower_char s"

text \<open>\<open>metadata[key]\<close> on the loaded metadata.\<close>

definition subscript :: "json \<Rightarrow> string \<Rightarrow> py_error + json" where
  "subscript v key =
     (case v of
        JObj d \<Rightarrow> (case map_of d key of None \<Rightarrow> Inl KeyError | Some x \<Rightarrow> Inr x)
      | _ \<Rightarrow> Inl TypeError)"

text \<open>\<open>list(mapping_data.values())[0]['mappings']\<close>.\<close>

definition original_mapping_of :: "json \<Rightarrow> py_error + json" where
  "original_mapping_of mapping_data =
     (case mapping_data of
        JObj [] \<Rightarrow> Inl IndexError
      | JObj (kv # rest) \<Rightarrow> subscript (snd kv) ''mappings''
      | _ \<Rightarrow> Inl AttributeError)"

text \<open>
  The part of the import that reads the metadata and the mapping, up to the check of the
  existing index: the index name, \<open>total_batches\<close> and the mapping. \<open>Inr None\<close> is the
  return for a missing metadata file. \<open>total_documents\<close> must be a number to be printed
  with thousands separators (a string raises \<open>ValueError\<close>, anything else \<open>TypeError\<close>).
\<close>

definition read_export :: "import_env \<Rightarrow> string \<Rightarrow> py_error + (string \<times> json \<times> json) option" where
  "read_export env input_dir =
     (case input_files env (os_path_join input_dir ''metadata.json'') of
        None \<Rightarrow> Inr None
      | Some metadata \<Rightarrow>
          (case subscript metadata ''index_name'' of
             Inl e \<Rightarrow> Inl e
           | Inr name \<Rightarrow>
               (case subscript metadata ''total_documents'' of
                  Inl e \<Rightarrow> Inl e
                | Inr total_docs \<Rightarrow>
                    (case subscript metadata ''total_batches'' of
                       Inl e \<Rightarrow> Inl e
                     | Inr total_batches \<Rightarrow>
                         (if json_number total_docs = None
                          then Inl (case total_docs of JStr s \<Rightarrow> ValueError | _ \<Rightarrow> TypeError)
                          else case input_files env (os_path_join input_dir ''mapping.json'') of
                                 None \<Rightarrow> Inl OSError
                               | Some mapping_data \<Rightarrow>
                                   (case original_mapping_of mapping_data of
                                      Inl e \<Rightarrow> Inl e
                                    | Inr original_mapping \<Rightarrow>
                                        (case name of
                                           JStr index \<Rightarrow> Inr (Some (index, total_batches, original_mapping))
                                         | _ \<Rightarrow> Inl TypeError)))))))"

text \<open>The truth value of a Python value: \<open>None\<close>, \<open>False\<close>, zero and every empty
  string, list or dictionary are false.\<close>

definition py_truthy :: "json \<Rightarrow> bool" where
  "py_truthy v =
     (case v of
        JNull \<Rightarrow> False
      | JBool b \<Rightarrow> b
      | JInt i \<Rightarrow> i \<noteq> 0
      | JFloat x \<Rightarrow> x \<noteq> 0
      | JStr s \<Rightarrow> s \<noteq> []
      | JArr xs \<Rightarrow> xs \<noteq> []
      | JObj d \<Rightarrow> d \<noteq> [])"

text \<open>
  The preparation of one element of a batch, which becomes the \<open>_source\<close> of its bulk
  action. Without \<open>regenerate_embeddings\<close> the element is taken as it is, whatever it is.
  With it, \<open>doc.get\<close> raises \<open>AttributeError\<close> on an element that is not a dictionary;
  when the embedding is missing or \<open>None\<close> and the text is truthy, the embedding is
  computed again and stored in the document.
\<close>

definition prepare_doc :: "import_env \<Rightarrow> bool \<Rightarrow> json \<Rightarrow> py_error + json" where
  "prepare_doc env regenerate_embeddings item =
     (if regenerate_embeddings
      then (case item of
              JObj d \<Rightarrow>
                (if dict_get d ''embedding'' = JNull
                 then (let txt = (case map_of d ''text'' of None \<Rightarrow> JStr [] | Some v \<Rightarrow> v)
                       in if py_truthy txt
                          then (case model_encode env txt of
                                  None \<Rightarrow> Inl ModelError
                                | Some v \<Rightarrow> Inr (JObj (AList.update ''embedding'' v d)))
                          else Inr item)
                 else Inr item)
            | _ \<Rightarrow> Inl AttributeError)
      else Inr item)"

fun prepare_docs :: "import_env \<Rightarrow> bool \<Rightarrow> json list \<Rightarrow> py_error + json list" where
  "prepare_docs env regenerate_embeddings [] = Inr []"
| "prepare_docs env regenerate_embeddings (item # rest) =
     (case prepare_doc env regenerate_embeddings item of
        Inl e \<Rightarrow> Inl e
      | Inr src \<Rightarrow>
          (case prepare_docs env regenerate_embeddings rest of
             Inl e \<Rightarrow> Inl e
           | Inr actions \<Rightarrow> Inr (src # actions)))"

text \<open>
  The bulk submission of one batch to the index \<open>index\<close>, with \<open>raise_on_error=False\<close>:
  the engine answers for each action on its own. It takes a source that is a JSON object
  and that it accepts, and refuses every other source.
\<close>

definition accepted_sources :: "world \<Rightarrow> json list \<Rightarrow> doc list" where
  "accepted_sources w actions =
     concat (map (\<lambda>src. case src of JObj d \<Rightarrow> if es_index_ok w d then [d] else [] | _ \<Rightarrow> []) actions)"

definition add_docs :: "cluster \<Rightarrow> string \<Rightarrow> doc list \<Rightarrow> cluster" where
  "add_docs c index ds =
     (case indices c index of
        None \<Rightarrow> c\<lparr>indices := (indices c)(index \<mapsto> \<lparr>mappings = JObj [], docs = ds\<rparr>)\<rparr>
      | Some ix \<Rightarrow> c\<lparr>indices := (indices c)(index \<mapsto> ix\<lparr>docs := docs ix @ ds\<rparr>)\<rparr>)"

text \<open>
  The loop over \<open>range(total_batches)\<close>, by the list of batch numbers still to do. The
  state is the cluster and the counters \<open>imported\<close> and \<open>errors\<close>.
\<close>

fun import_batches ::
  "world \<Rightarrow> import_env \<Rightarrow> string \<Rightarrow> bool \<Rightarrow> string \<Rightarrow> nat list \<Rightarrow> cluster \<times> nat \<times> nat
     \<Rightarrow> cluster \<times> import_outcome" where
  "import_batches w env input_dir regenerate_embeddings index [] (c, imported, errors) =
     (c, Imported imported errors)"
| "import_batches w env input_dir regenerate_embeddings index (batch_num # rest) (c, imported, errors) =
     (case input_files env (os_path_join input_dir (batch_file_name batch_num)) of
        None \<Rightarrow> import_batches w env input_dir regenerate_embeddings index rest (c, imported, errors)
      | Some batch_data \<Rightarrow>
          (case items_of batch_data of
             None \<Rightarrow> (c, Raised TypeError)
           | Some items \<Rightarrow>
               (case prepare_docs env regenerate_embeddings items of
                  Inl e \<Rightarrow> (c, Raised e)
                | Inr actions \<Rightarrow>
                    import_batches w env input_dir regenerate_embeddings index rest
                      (add_docs c index (accepted_sources w actions),
                       imported + length (accepted_sources w actions),
                       errors + (length actions - length (accepted_sources w actions))))))"

text \<open>\<open>range(total_batches)\<close>; \<open>None\<close> is the \<open>TypeError\<close> for a value that is not an integer.\<close>

definition py_range :: "json \<Rightarrow> nat list option" where
  "py_range v =
     (case v of
        JInt n \<Rightarrow> Some [0..<nat n]
      | JBool b \<Rightarrow> Some [0..<(if b then 1 else 0)]
      | _ \<Rightarrow> None)"

text \<open>\<open>import_index_from_files\<close>: the cluster after the call, and how the call ended.\<close>

definition import_index_from_files ::
  "world \<Rightarrow> import_env \<Rightarrow> cluster \<Rightarrow> string \<Rightarrow> bool \<Rightarrow> cluster \<times> import_outcome" where
  "import_index_from_files w env c input_dir regenerate_embeddings =
     (if \<not> input_dir_exists env then (c, Returned)
      else if \<not> alive c then (c, Returned)
      else case read_export env input_dir of
             Inl e \<Rightarrow> (c, Raised e)
           | Inr None \<Rightarrow> (c, Returned)
           | Inr (Some (index, total_batches, original_mapping)) \<Rightarrow>
               (let fresh = \<lparr>mappings = original_mapping, docs = []\<rparr>;
                    load = (\<lambda>c1. if \<not> create_ok env then (c1, Raised EngineError)
                                 else case py_range total_batches of
                                        None \<Rightarrow> (c1\<lparr>indices := (indices c1)(index \<mapsto> fresh)\<rparr>, Raised TypeError)
                                      | Some batch_nums \<Rightarrow>
                                          import_batches w env input_dir regenerate_embeddings index batch_nums
                                            (c1\<lparr>indices := (indices c1)(index \<mapsto> fresh)\<rparr>, 0, 0))
                in if indices c index \<noteq> None
                   then (case answer env of
                           None \<Rightarrow> (c, Raised EOFError)
                         | Some response \<Rightarrow>
                             if py_lower response \<noteq> ''yes'' then (c, Cancelled)
                             else load (c\<lparr>indices := (indices c)(index := None)\<rparr>))
                   else load c))"

section \<open>Example worlds\<close>

text \<open>
  A source tree \<open>d\<close> holding the one transcript \<open>a.json\<close>, whose parsed content is \<open>data\<close>;
  an embedding model that returns vectors of three numbers; an index engine that accepts
  every document; no keyframes.
\<close>

definition demo_world :: "json \<Rightarrow> world" where
  "demo_world data =
     \<lparr>md5 = (\<lambda>bytes. ''md5:'' @ bytes),
      readable = [''d/a.json'' \<mapsto> ''x''],
      source_tree = Tree [''a.json''] [],
      json_load = (\<lambda>bytes. Some data),
      encode = (\<lambda>txt. Some [0, 0, 0]),
      es_index_ok = (\<lambda>d. True),
      es_search = (\<lambda>name body. Inr []),
      keyframe_node = (\<lambda>p. Missing)\<rparr>"

definition demo_engine :: "bool \<Rightarrow> (string \<rightharpoonup> string) \<Rightarrow> engine" where
  "demo_engine sem store =
     \<lparr>context_json_dir = ''d'', base_keyframe_dir = ''k'', index_name = ''speech_index'',
      use_semantic = sem, force_reindex = False, index_tracker_file = ''.indexed_files.json'',
      indexed_files = store\<rparr>"

text \<open>A transcript with one segment; and one whose second item is the number 5.\<close>

definition good_transcript :: json where
  "good_transcript = JArr [JObj [(''text'', JStr ''hi'')]]"


text \<open>
  The pieces in which \<open>json.dump(..., indent=2)\<close> writes the map with the one entry
  \<open>"d/a.json": "md5:x"\<close>, and an older tracker file.
\<close>

definition demo_pieces :: "string list" where
  "demo_pieces =
     [''{'', [CHR 0x0A, CHR '' '', CHR '' ''], [CHR 0x22] @ ''d/a.json'' @ [CHR 0x22], '': '',
      [CHR 0x22] @ ''md5:x'' @ [CHR 0x22], [CHR 0x0A], ''}'']"

definition old_tracker :: "string \<rightharpoonup> string" where
  "old_tracker = [''.indexed_files.json'' \<mapsto> ''{}'']"

text \<open>
  A retrieved document of the video \<open>K01_V001\<close> with the frame range 100 to 120; a keyframe
  hierarchy under \<open>kf\<close> whose folder for that video lists \<open>names\<close>; and an index engine
  that answers every lexical request with that document and fails every vector request,
  next to an embedding model \<open>enc\<close>.
\<close>

definition frame_hit :: doc where
  "frame_hit =
     [(''text'', JStr ''hi''), (''start_frame'', JInt 100), (''end_frame'', JInt 120),
      (''start_sec'', JFloat 4), (''end_sec'', JFloat 5), (''file'', JStr ''d/K01_V001.json''),
      (''video_name'', JStr ''K01_V001''), (''L'', JInt 0)]"

definition keyframes_world :: "string list \<Rightarrow> world" where
  "keyframes_world names =
     (demo_world good_transcript)
       \<lparr>keyframe_node := (\<lambda>p. if p = ''kf/K01/K01_V001'' then Directory names else Missing)\<rparr>"

definition search_world :: "(string \<Rightarrow> real list option) \<Rightarrow> world" where
  "search_world enc =
     (keyframes_world [''90.jpg'', ''105.jpg'', ''130.jpg''])
       \<lparr>encode := enc,
        es_search := (\<lambda>name body.
           case body of
             JObj request \<Rightarrow> if map_of request ''knn'' = None then Inr [frame_hit] else Inl EngineError
           | _ \<Rightarrow> Inl EngineError)\<rparr>"

text \<open>
  An export of one batch holding one document under \<open>elasticsearch_data\<close>; an operator who
  types \<open>typed\<close> at the prompt; and a cluster whose index \<open>speech_index\<close> holds \<open>ds\<close>.
\<close>

definition export_dir :: "string \<rightharpoonup> json" where
  "export_dir =
     [''elasticsearch_data/metadata.json'' \<mapsto>
        JObj [(''index_name'', JStr ''speech_index''), (''total_documents'', JInt 1),
              (''total_batches'', JInt 1), (''batch_size'', JInt 1000)],
      ''elasticsearch_data/mapping.json'' \<mapsto>
        JObj [(''speech_index'', JObj [(''mappings'', JObj [(''properties'', JObj [])])])],
      ''elasticsearch_data/batch_0000.json'' \<mapsto>
        JArr [JObj [(''text'', JStr ''hi''), (''embedding'', JNull)]]]"

definition import_demo :: "string option \<Rightarrow> import_env" where
  "import_demo typed =
     \<lparr>input_dir_exists = True, input_files = export_dir, answer = typed, create_ok = True,
      model_encode = (\<lambda>txt. Some (JArr [JFloat 0, JFloat 0, JFloat 0]))\<rparr>"

definition live_cluster :: "doc list \<Rightarrow> cluster" where
  "live_cluster ds =
     \<lparr>alive = True,
      indices = [''speech_index'' \<mapsto> \<lparr>mappings = JObj [], docs = ds\<rparr>],
      max_result_window = 10000\<rparr>"

text \<open>An indexed document that carries an embedding.\<close>

definition embedded_hit :: doc where
  "embedded_hit = frame_hit @ [(''embedding'', JArr [JFloat 0, JFloat 1, JFloat 0])]"

section \<open>Properties of the fingerprint store and the sync engine\<close>

lemma concat_chunks: "0 < n \<Longrightarrow> concat (chunks n xs) = xs"
proof (induction n xs rule: chunks.induct)
  case (1 n xs)
  then show ?case
    by (subst chunks.simps) auto
qed

lemma get_file_hash_readable: "readable w p = Some bytes \<Longrightarrow> get_file_hash w p = md5 w bytes"
  by (simp add: get_file_hash_def concat_chunks)

lemma should_index_file_iff:
  "should_index_file w self p \<longleftrightarrow>
     force_reindex self \<or> indexed_files self p = None \<or>
     indexed_files self p \<noteq> Some (get_file_hash w p)"
  by (auto simp: should_index_file_def Let_def split: option.splits)









text \<open>
  Claim C2, as the code has it. When the file cannot be read, \<open>get_file_hash\<close> returns the
  empty string, and the dirty check classifies the file as dirty if and only if the force
  flag is set or the fingerprint map does not hold the empty string for that path; so it
  is dirty whenever the stored fingerprint is a non-empty string or there is none.
\<close>

theorem unreadable_file_dirty_unless_empty_stored:
  "readable w p = None \<Longrightarrow>
     get_file_hash w p = [] \<and>
     (should_index_file w self p \<longleftrightarrow> force_reindex self \<or> indexed_files self p \<noteq> Some [])"
  by (auto simp: should_index_file_iff get_file_hash_def)

theorem unreadable_file_dirty_unless_empty_stored_witness:
  "readable (demo_world good_transcript) ''d/gone.json'' = None \<and>
   get_file_hash (demo_world good_transcript) ''d/gone.json'' = [] \<and>
   should_index_file (demo_world good_transcript)
     (demo_engine False [''d/gone.json'' \<mapsto> ''9e107d9d372bb6826bd81d3542a419d6'']) ''d/gone.json''"
proof -
  have r: "readable (demo_world good_transcript) ''d/gone.json'' = None"
    by (simp add: demo_world_def)
  have "indexed_files (demo_engine False [''d/gone.json'' \<mapsto> ''9e107d9d372bb6826bd81d3542a419d6''])
          ''d/gone.json'' \<noteq> Some []"
    by (simp add: demo_engine_def)
  with unreadable_file_dirty_unless_empty_stored [OF r] r show ?thesis
    by simp
qed

text \<open>
  The empty string is not excluded from the fingerprint map: with the entry \<open>""\<close> stored
  for a path whose file cannot be read, the stored and the current fingerprint are equal
  and the file is skipped.
\<close>

theorem unreadable_file_skipped_counterexample:
  "readable (demo_world good_transcript) ''d/gone.json'' = None \<and>
   \<not> should_index_file (demo_world good_transcript)
       (demo_engine False [''d/gone.json'' \<mapsto> '''']) ''d/gone.json''"
  by code_simp

section \<open>Properties of the scanner\<close>

lemma concat_map_concat:
  "concat (map f (concat (map g xs))) = concat (map (\<lambda>x. concat (map f (g x))) xs)"
  by (induction xs) simp_all

lemma scan_Tree:
  "scan top_dir (Tree files subdirs) =
     map (os_path_join top_dir) (filter (\<lambda>f. endswith f ''.json'') files) @
     concat (map (\<lambda>sub. scan (os_path_join top_dir (fst sub)) (snd sub)) subdirs)"
  by (simp add: scan_def concat_map_concat)

lemma in_tree_Tree:
  "in_tree top_dir (Tree files subdirs) dir name \<longleftrightarrow>
     (dir = top_dir \<and> name \<in> set files) \<or>
     (\<exists>sub \<in> set subdirs. in_tree (os_path_join top_dir (fst sub)) (snd sub) dir name)"
  by (subst in_tree.simps) force

lemma set_scan:
  "p \<in> set (scan top_dir t) \<longleftrightarrow>
     (\<exists>dir name. in_tree top_dir t dir name \<and> endswith name ''.json'' \<and> p = os_path_join dir name)"
proof (induction top_dir t arbitrary: p rule: os_walk.induct)
  case (1 top_dir files subdirs)
  have IH: "p \<in> set (scan (os_path_join top_dir (fst sub)) (snd sub)) \<longleftrightarrow>
      (\<exists>dir name. in_tree (os_path_join top_dir (fst sub)) (snd sub) dir name \<and>
         endswith name ''.json'' \<and> p = os_path_join dir name)"
    if "sub \<in> set subdirs" for sub p
    using 1 [of sub p] that by simp
  have "p \<in> set (scan top_dir (Tree files subdirs)) \<longleftrightarrow>
      (\<exists>name \<in> set files. endswith name ''.json'' \<and> p = os_path_join top_dir name) \<or>
      (\<exists>sub \<in> set subdirs. p \<in> set (scan (os_path_join top_dir (fst sub)) (snd sub)))"
    unfolding scan_Tree by auto
  also have "\<dots> \<longleftrightarrow>
      (\<exists>name \<in> set files. endswith name ''.json'' \<and> p = os_path_join top_dir name) \<or>
      (\<exists>sub \<in> set subdirs. \<exists>dir name. in_tree (os_path_join top_dir (fst sub)) (snd sub) dir name \<and>
         endswith name ''.json'' \<and> p = os_path_join dir name)"
    using IH by blast
  also have "\<dots> \<longleftrightarrow>
      (\<exists>dir name. in_tree top_dir (Tree files subdirs) dir name \<and> endswith name ''.json'' \<and>
         p = os_path_join dir name)"
    unfolding in_tree_Tree by blast
  finally show ?case .
qed

text \<open>
  Claim C9, as the code has it. The scan yields exactly the files of the tree whose names
  end in \<open>.json\<close>, each under the path of its directory, in the order of the top-down
  walk: the matching files of a directory in the order of its listing, then the files of
  each subdirectory in listing order. The result is a function of the tree and its
  listing orders, so two scans of the same tree give the same sequence; it is not sorted.
\<close>

theorem scan_json_files_in_walk_order:
  "(p \<in> set (scan top_dir (Tree files subdirs)) \<longleftrightarrow>
      (\<exists>dir name. in_tree top_dir (Tree files subdirs) dir name \<and> endswith name ''.json'' \<and>
         p = os_path_join dir name)) \<and>
   scan top_dir (Tree files subdirs) =
     map (os_path_join top_dir) (filter (\<lambda>f. endswith f ''.json'') files) @
     concat (map (\<lambda>sub. scan (os_path_join top_dir (fst sub)) (snd sub)) subdirs)"
  using set_scan [of p top_dir "Tree files subdirs"] scan_Tree [of top_dir files subdirs]
  by blast

theorem scan_json_files_in_walk_order_witness:
  "scan ''d'' (Tree [''b.json'', ''notes.txt''] [(''s'', Tree [''a.json''] [])]) =
     [''d/b.json'', ''d/s/a.json''] \<and>
   (\<exists>dir name. in_tree ''d'' (Tree [''b.json'', ''notes.txt''] [(''s'', Tree [''a.json''] [])]) dir name \<and>
      endswith name ''.json'' \<and> ''d/s/a.json'' = os_path_join dir name)"
proof -
  have s: "scan ''d'' (Tree [''b.json'', ''notes.txt''] [(''s'', Tree [''a.json''] [])]) =
      [''d/b.json'', ''d/s/a.json'']"
    by code_simp
  then have "''d/s/a.json'' \<in> set (scan ''d'' (Tree [''b.json'', ''notes.txt''] [(''s'', Tree [''a.json''] [])]))"
    by simp
  with scan_json_files_in_walk_order
         [of "''d/s/a.json''" "''d''" "[''b.json'', ''notes.txt'']" "[(''s'', Tree [''a.json''] [])]"]
  have "\<exists>dir name. in_tree ''d'' (Tree [''b.json'', ''notes.txt''] [(''s'', Tree [''a.json''] [])]) dir name \<and>
      endswith name ''.json'' \<and> ''d/s/a.json'' = os_path_join dir name"
    by blast
  with s show ?thesis by blast
qed

text \<open>
  The order is that of the directory listings, not of the paths: a directory that lists
  \<open>b.json\<close> before \<open>a.json\<close> is scanned in that order, and the files of a directory come
  before those of its subdirectories even when their paths are greater.
\<close>

theorem scan_not_sorted_counterexample:
  "scan ''d'' (Tree [''b.json'', ''a.json''] []) = [''d/b.json'', ''d/a.json''] \<and>
   \<not> sorted (scan ''d'' (Tree [''b.json'', ''a.json''] [])) \<and>
   \<not> sorted (scan ''d'' (Tree [''z.json''] [(''a'', Tree [''x.json''] [])]))"
  by code_simp

section \<open>Properties of document submission\<close>

text \<open>
  Claim C7, as the code has it. The code compares no vector length with the schema's
  dimension. For an item with non-empty text, whatever vector the embedding model returns
  is put into the document, and the document is passed to \<open>es.index\<close>; only the index
  engine's answer decides whether the loop goes on to the next item or the file's block
  ends with an exception.
\<close>

theorem embedding_submitted_without_dimension_check:
  "use_semantic self \<Longrightarrow> item_text item = Some txt \<Longrightarrow> txt \<noteq> [] \<Longrightarrow> encode w txt = Some v \<Longrightarrow>
   fst (index_items w self full_path video_name idx (item # rest)) =
     AList.update ''embedding'' (JArr (map JFloat v))
       (make_doc (item_dict item) txt full_path video_name idx) #
     (if es_index_ok w
           (AList.update ''embedding'' (JArr (map JFloat v))
              (make_doc (item_dict item) txt full_path video_name idx))
      then fst (index_items w self full_path video_name (Suc idx) rest) else [])"
  by (simp add: Let_def)

theorem embedding_submitted_without_dimension_check_witness:
  "use_semantic (demo_engine True Map.empty) \<and>
   item_text (JObj [(''text'', JStr ''hi'')]) = Some ''hi'' \<and>
   encode (demo_world good_transcript) ''hi'' = Some [0, 0, 0] \<and>
   length [0, 0, 0 :: real] \<noteq> embedding_dims \<and>
   fst (index_items (demo_world good_transcript) (demo_engine True Map.empty) ''d/a.json'' ''a'' 0
          [JObj [(''text'', JStr ''hi'')]]) =
     [AList.update ''embedding'' (JArr (map JFloat [0, 0, 0]))
        (make_doc (item_dict (JObj [(''text'', JStr ''hi'')])) ''hi'' ''d/a.json'' ''a'' 0)]"
proof -
  have a: "use_semantic (demo_engine True Map.empty)"
    by (simp add: demo_engine_def)
  have b: "item_text (JObj [(''text'', JStr ''hi'')]) = Some ''hi''"
    by code_simp
  have c: "''hi'' \<noteq> []"
    by simp
  have d: "encode (demo_world good_transcript) ''hi'' = Some [0, 0, 0]"
    by (simp add: demo_world_def)
  have e: "length [0, 0, 0 :: real] \<noteq> embedding_dims"
    by (simp add: embedding_dims_def)
  have f: "es_index_ok (demo_world good_transcript) x" for x
    by (simp add: demo_world_def)
  from embedding_submitted_without_dimension_check [OF a b c d, of "''d/a.json''" "''a''" 0 "[]"]
  show ?thesis
    using a b d e f by simp
qed

text \<open>
  A vector of three numbers, where the schema fixes 768: the document is passed to the
  index with it, and when the engine accepts it the file counts as indexed.
\<close>

theorem wrong_dimension_submitted_counterexample:
  "submitted (index_data (demo_world good_transcript) (demo_engine True Map.empty)) =
     [[(''text'', JStr ''hi''), (''start_frame'', JNull), (''end_frame'', JNull),
       (''start_sec'', JNull), (''end_sec'', JNull), (''file'', JStr ''d/a.json''),
       (''video_name'', JStr ''a''), (''L'', JInt 0),
       (''embedding'', JArr [JFloat 0, JFloat 0, JFloat 0])]] \<and>
   indexed_count (index_data (demo_world good_transcript) (demo_engine True Map.empty)) = 1 \<and>
   embedding_dims \<noteq> 3"
  by code_simp

section \<open>Properties of saving the fingerprint map\<close>

lemma save_states_first: "hd (save_states disk t pieces) = disk(t \<mapsto> [])"
  unfolding save_states_def by (simp del: upt_Suc add: upt_rec hd_map)

lemma save_states_last: "last (save_states disk t pieces) = disk(t \<mapsto> concat pieces)"
  unfolding save_states_def by (simp add: last_map)

lemma save_states_prefix:
  "s \<in> set (save_states disk t pieces) \<Longrightarrow>
   (\<exists>k \<le> length pieces. s t = Some (concat (take k pieces))) \<and> (\<forall>p. p \<noteq> t \<longrightarrow> s p = disk p)"
  unfolding save_states_def
  by (auto simp del: upt_Suc) (metis le_simps(2) fun_upd_same)

text \<open>
  Claim C8, as the code has it. The map is written in place: opening the tracker file
  for writing truncates it, and the serialized map is then written into it. Every state
  of the disk during the save holds, in the tracker file, the text written so far, a
  prefix of the new text, starting with the empty file; other files are not touched. A
  completed save leaves the complete new text; when the file cannot be opened the
  exception is caught and the disk is unchanged.
\<close>

theorem save_writes_in_place:
  "hd (save_states disk t pieces) = disk(t \<mapsto> []) \<and>
   (\<forall>s \<in> set (save_states disk t pieces).
      (\<exists>k \<le> length pieces. s t = Some (concat (take k pieces))) \<and> (\<forall>p. p \<noteq> t \<longrightarrow> s p = disk p)) \<and>
   save_indexed_files json_dump True disk self =
     disk(index_tracker_file self \<mapsto> concat (json_dump (indexed_files self))) \<and>
   save_indexed_files json_dump False disk self = disk"
  using save_states_prefix [of _ disk t pieces]
  by (simp add: save_states_first save_states_last save_indexed_files_def)

theorem save_writes_in_place_witness:
  "hd (save_states old_tracker ''.indexed_files.json'' demo_pieces) \<in>
     set (save_states old_tracker ''.indexed_files.json'' demo_pieces) \<and>
   hd (save_states old_tracker ''.indexed_files.json'' demo_pieces) ''.indexed_files.json'' = Some [] \<and>
   hd (save_states old_tracker ''.indexed_files.json'' demo_pieces) ''d/a.json'' = old_tracker ''d/a.json'' \<and>
   save_indexed_files (\<lambda>m. demo_pieces) True old_tracker
       (demo_engine False [''d/a.json'' \<mapsto> ''md5:x'']) ''.indexed_files.json'' =
     Some (concat demo_pieces)"
proof -
  let ?states = "save_states old_tracker ''.indexed_files.json'' demo_pieces"
  let ?e = "demo_engine False [''d/a.json'' \<mapsto> ''md5:x'']"
  have ne: "?states \<noteq> []"
    by (simp add: save_states_def)
  then have m: "hd ?states \<in> set ?states"
    by (rule hd_in_set)
  have t: "index_tracker_file ?e = ''.indexed_files.json''"
    by (simp add: demo_engine_def)
  note th = save_writes_in_place [of old_tracker "''.indexed_files.json''" demo_pieces
      "\<lambda>m. demo_pieces" ?e]
  have a: "hd ?states = old_tracker(''.indexed_files.json'' \<mapsto> [])"
    by (rule th [THEN conjunct1])
  have b: "\<forall>s \<in> set ?states.
      (\<exists>k \<le> length demo_pieces. s ''.indexed_files.json'' = Some (concat (take k demo_pieces))) \<and>
      (\<forall>p. p \<noteq> ''.indexed_files.json'' \<longrightarrow> s p = old_tracker p)"
    by (rule th [THEN conjunct2, THEN conjunct1])
  have c: "save_indexed_files (\<lambda>m. demo_pieces) True old_tracker ?e =
      old_tracker(index_tracker_file ?e \<mapsto> concat demo_pieces)"
    by (rule th [THEN conjunct2, THEN conjunct2, THEN conjunct1])
  have d: "''d/a.json'' \<noteq> ''.indexed_files.json''"
    by simp
  from a have 1: "hd ?states ''.indexed_files.json'' = Some []"
    by simp
  have "\<forall>p. p \<noteq> ''.indexed_files.json'' \<longrightarrow> hd ?states p = old_tracker p"
    using bspec [OF b m] by (rule conjunct2)
  then have "''d/a.json'' \<noteq> ''.indexed_files.json'' \<longrightarrow> hd ?states ''d/a.json'' = old_tracker ''d/a.json''"
    by (rule spec)
  then have 2: "hd ?states ''d/a.json'' = old_tracker ''d/a.json''"
    using d by (rule mp)
  from c t have 3: "save_indexed_files (\<lambda>m. demo_pieces) True old_tracker ?e ''.indexed_files.json'' =
      Some (concat demo_pieces)"
    by simp
  from m 1 2 3 show ?thesis
    by (intro conjI)
qed

text \<open>
  No temporary file and no rename: right after the \<open>open\<close>, the tracker file on disk is
  empty, which is neither the old tracker file nor the new one.
\<close>

theorem save_truncates_counterexample:
  "old_tracker ''.indexed_files.json'' = Some ''{}'' \<and>
   hd (save_states old_tracker ''.indexed_files.json'' demo_pieces) ''.indexed_files.json'' = Some [] \<and>
   last (save_states old_tracker ''.indexed_files.json'' demo_pieces) ''.indexed_files.json'' =
     Some (concat demo_pieces) \<and>
   [] \<noteq> ''{}'' \<and> [] \<noteq> concat demo_pieces"
  by (simp add: save_states_first save_states_last old_tracker_def demo_pieces_def)

section \<open>Properties of paths and of \<open>int\<close>\<close>

lemma takeWhile_pass: "c \<notin> set xs \<Longrightarrow> takeWhile (\<lambda>x. x \<noteq> c) (xs @ ys) = xs @ takeWhile (\<lambda>x. x \<noteq> c) ys"
  by (induction xs) auto

lemma takeWhile_all: "c \<notin> set xs \<Longrightarrow> takeWhile (\<lambda>x. x \<noteq> c) xs = xs"
  by (induction xs) auto

lemma basename_append:
  "CHR ''/'' \<notin> set b \<Longrightarrow> os_path_basename (a @ b) = os_path_basename a @ b"
  by (simp add: os_path_basename_def takeWhile_pass)

lemma basename_dir:
  "a = [] \<or> last a = CHR ''/'' \<Longrightarrow> os_path_basename a = []"
  by (cases a rule: rev_cases) (auto simp: os_path_basename_def)

lemma basename_no_sep: "CHR ''/'' \<notin> set b \<Longrightarrow> os_path_basename b = b"
  by (simp add: os_path_basename_def takeWhile_all)

lemma splitext_dot:
  assumes "CHR ''.'' \<notin> set ext" and "CHR ''/'' \<notin> set ext"
  shows "os_path_splitext (stem @ CHR ''.'' # ext) =
     (if dropWhile (\<lambda>c. c = CHR ''.'') (os_path_basename stem) \<noteq> []
      then (stem, CHR ''.'' # ext) else (stem @ CHR ''.'' # ext, []))"
proof -
  have n: "os_path_basename (stem @ CHR ''.'' # ext) = os_path_basename stem @ CHR ''.'' # ext"
    using assms by (simp add: basename_append)
  have "takeWhile (\<lambda>c. c \<noteq> CHR ''.'') (rev ext @ CHR ''.'' # rev (os_path_basename stem)) = rev ext"
    using assms by (simp add: takeWhile_pass)
  then have e: "rev (takeWhile (\<lambda>c. c \<noteq> CHR ''.'') (rev (os_path_basename stem @ CHR ''.'' # ext))) = ext"
    by simp
  show ?thesis
    unfolding os_path_splitext_def n Let_def e by simp
qed

text \<open>A string that \<open>int\<close> accepts holds nothing but blanks, digits, underscores and signs.\<close>

lemma parse_digits_chars:
  "parse_digits acc s = Some v \<Longrightarrow> c \<in> set s \<Longrightarrow> is_digit c \<or> c = CHR ''_''"
  by (induction acc s arbitrary: v rule: parse_digits.induct) (auto split: if_splits)

lemma parse_nat_chars:
  "parse_nat s = Some v \<Longrightarrow> c \<in> set s \<Longrightarrow> is_digit c \<or> c = CHR ''_''"
  by (cases s) (auto simp: parse_nat_def split: if_splits dest: parse_digits_chars)

lemma set_trim:
  assumes "c \<in> set x"
  shows "P c \<or> c \<in> set (rev (dropWhile P (rev (dropWhile P x))))"
proof -
  have "set x = set (takeWhile P x) \<union> set (dropWhile P x)"
    by (metis set_append takeWhile_dropWhile_id)
  moreover have "set (dropWhile P x) =
      set (takeWhile P (rev (dropWhile P x))) \<union> set (dropWhile P (rev (dropWhile P x)))"
    by (metis set_append set_rev takeWhile_dropWhile_id)
  ultimately have "c \<in> set (takeWhile P x) \<or> c \<in> set (takeWhile P (rev (dropWhile P x)))
      \<or> c \<in> set (dropWhile P (rev (dropWhile P x)))"
    using assms by auto
  then show ?thesis
    by (auto dest: set_takeWhileD)
qed

lemma py_int_chars:
  assumes "py_int x = Some k" and "c \<in> set x"
  shows "is_int_space c \<or> is_digit c \<or> c = CHR ''_'' \<or> c = CHR ''+'' \<or> c = CHR ''-''"
proof -
  let ?t = "rev (dropWhile is_int_space (rev (dropWhile is_int_space x)))"
  from assms(2) have "is_int_space c \<or> c \<in> set ?t"
    by (rule set_trim)
  moreover have "is_digit c \<or> c = CHR ''_'' \<or> c = CHR ''+'' \<or> c = CHR ''-''" if "c \<in> set ?t"
  proof (cases ?t)
    case Nil
    with that show ?thesis by simp
  next
    case (Cons a as)
    with assms(1) have "(a = CHR ''-'' \<and> parse_nat as \<noteq> None) \<or> (a = CHR ''+'' \<and> parse_nat as \<noteq> None)
        \<or> parse_nat (a # as) \<noteq> None"
      by (auto simp: py_int_def split: if_splits)
    with that Cons show ?thesis
      by (auto dest: parse_nat_chars)
  qed
  ultimately show ?thesis by blast
qed

lemma py_int_no_dot: "CHR ''.'' \<in> set x \<Longrightarrow> py_int x = None"
proof (rule ccontr)
  assume a: "CHR ''.'' \<in> set x" and "py_int x \<noteq> None"
  then obtain k where "py_int x = Some k" by auto
  from py_int_chars [OF this a] show False
    by (simp add: is_int_space_def is_digit_def)
qed

lemma py_int_no_sep: "CHR ''/'' \<in> set x \<Longrightarrow> py_int x = None"
proof (rule ccontr)
  assume a: "CHR ''/'' \<in> set x" and "py_int x \<noteq> None"
  then obtain k where "py_int x = Some k" by auto
  from py_int_chars [OF this a] show False
    by (simp add: is_int_space_def is_digit_def)
qed

lemma py_int_empty: "py_int [] = None"
  by (simp add: py_int_def)

text \<open>For a name with an image extension, parsing the stem that \<open>os.path.splitext\<close> gives is
  parsing the name without its extension.\<close>

lemma all_dots_basename:
  assumes "dropWhile (\<lambda>c. c = CHR ''.'') (os_path_basename stem) = []"
  shows "stem = [] \<or> CHR ''.'' \<in> set stem \<or> CHR ''/'' \<in> set stem"
proof (cases stem rule: rev_cases)
  case Nil
  then show ?thesis by simp
next
  case (snoc ys y)
  show ?thesis
  proof (cases "y = CHR ''/''")
    case True
    with snoc show ?thesis by simp
  next
    case False
    with snoc have "y \<in> set (os_path_basename stem)"
      by (simp add: os_path_basename_def)
    with assms have "y = CHR ''.''"
      by (metis (mono_tags, lifting) dropWhile_eq_Nil_conv)
    with snoc show ?thesis by simp
  qed
qed

lemma py_int_splitext_image:
  assumes "ext \<in> {''.webp'', ''.jpg'', ''.png''}"
  shows "py_int (fst (os_path_splitext (stem @ ext))) = py_int stem"
proof -
  from assms obtain e where e: "ext = CHR ''.'' # e" "CHR ''.'' \<notin> set e" "CHR ''/'' \<notin> set e"
    by auto
  show ?thesis
  proof (cases "dropWhile (\<lambda>c. c = CHR ''.'') (os_path_basename stem) \<noteq> []")
    case True
    with e show ?thesis by (simp add: splitext_dot)
  next
    case False
    then have "stem = [] \<or> CHR ''.'' \<in> set stem \<or> CHR ''/'' \<in> set stem"
      by (simp add: all_dots_basename)
    then have "py_int stem = None"
      by (auto simp: py_int_empty py_int_no_dot py_int_no_sep)
    moreover have "py_int (stem @ CHR ''.'' # e) = None"
      by (rule py_int_no_dot) simp
    ultimately show ?thesis
      using False e by (simp add: splitext_dot)
  qed
qed

text \<open>The decimal numeral of a number, of at most 4300 digits, parses to that number.\<close>

lemma digit_val_digit_char: "d < 10 \<Longrightarrow> digit_val (digit_char d) = d"
  by (simp add: digit_val_def digit_char_def)

lemma undec_dec: "undec (dec n) = n"
proof (induction n rule: dec.induct)
  case (1 n)
  show ?case
  proof (cases "n < 10")
    case True
    then show ?thesis
      by (subst dec.simps) (simp add: undec_def digit_val_digit_char)
  next
    case False
    then have "undec (dec (n div 10)) = n div 10"
      by (rule 1)
    then have "undec (dec (n div 10) @ [digit_char (n mod 10)]) = 10 * (n div 10) + n mod 10"
      by (simp add: undec_def digit_val_digit_char)
    with False show ?thesis
      by (subst dec.simps) simp
  qed
qed

lemma parse_digits_all:
  "\<forall>c\<in>set ds. is_digit c \<Longrightarrow>
   parse_digits acc ds = Some (foldl (\<lambda>a ch. 10 * a + digit_val ch) acc ds)"
  by (induction acc ds rule: parse_digits.induct) simp_all

lemma is_digit_digit_char: "d < 10 \<Longrightarrow> is_digit (digit_char d)"
  by (simp add: is_digit_def digit_char_def)

lemma dec_digits: "c \<in> set (dec n) \<Longrightarrow> is_digit c"
proof (induction n rule: dec.induct)
  case (1 n)
  show ?case
  proof (cases "n < 10")
    case True
    with 1(2) show ?thesis
      by (subst (asm) dec.simps) (simp add: is_digit_digit_char)
  next
    case False
    with 1(2) have "c \<in> set (dec (n div 10)) \<or> c = digit_char (n mod 10)"
      by (subst (asm) dec.simps) auto
    with 1(1) False show ?thesis
      by (auto simp: is_digit_digit_char)
  qed
qed

lemma dec_nonempty: "dec n \<noteq> []"
  by (subst dec.simps) simp

lemma digit_not_int_space: "is_digit c \<Longrightarrow> \<not> is_int_space c"
  by (auto simp: is_digit_def is_int_space_def Let_def)

lemma trim_digits:
  assumes "ds \<noteq> []" and "\<forall>c\<in>set ds. is_digit c"
  shows "rev (dropWhile is_int_space (rev (dropWhile is_int_space ds))) = ds"
proof -
  from assms have "\<not> is_int_space (hd ds)" "\<not> is_int_space (last ds)"
    by (simp_all add: digit_not_int_space)
  with assms(1) have 1: "dropWhile is_int_space ds = ds"
    by (cases ds) simp_all
  from assms(1) \<open>\<not> is_int_space (last ds)\<close> have "dropWhile is_int_space (rev ds) = rev ds"
    by (cases ds rule: rev_cases) simp_all
  with 1 show ?thesis by simp
qed

lemma py_int_digits:
  assumes "ds \<noteq> []" and "\<forall>c\<in>set ds. is_digit c" and "length ds \<le> 4300"
  shows "py_int ds = Some (int (undec ds))"
proof -
  from assms(1) obtain c cs where ds: "ds = c # cs"
    by (cases ds) auto
  with assms(2) have c: "is_digit c" "\<forall>x\<in>set cs. is_digit x"
    by simp_all
  then have sign: "c \<noteq> CHR ''-''" "c \<noteq> CHR ''+''"
    by (auto simp: is_digit_def)
  have f: "filter is_digit ds = ds"
    using assms(2) by simp
  have "parse_digits (digit_val c) cs = Some (foldl (\<lambda>a ch. 10 * a + digit_val ch) (digit_val c) cs)"
    using c(2) by (rule parse_digits_all)
  then have "parse_nat ds = Some (undec ds)"
    using c(1) assms(3) f unfolding ds by (simp add: parse_nat_def undec_def max_str_digits_def)
  moreover have "py_int ds =
      (case ds of
         [] \<Rightarrow> None
       | c # cs \<Rightarrow>
           if c = CHR ''-'' then map_option (\<lambda>n. - int n) (parse_nat cs)
           else if c = CHR ''+'' then map_option int (parse_nat cs)
           else map_option int (parse_nat (c # cs)))"
    by (simp only: py_int_def trim_digits [OF assms(1,2)])
  ultimately show ?thesis
    using sign by (simp add: ds)
qed

lemma py_int_dec:
  assumes "length (dec k) \<le> 4300"
  shows "py_int (dec k) = Some (int k)"
proof -
  have "\<forall>c\<in>set (dec k). is_digit c"
    by (simp add: dec_digits)
  then show ?thesis
    using py_int_digits [OF dec_nonempty _ assms] by (simp add: undec_dec)
qed

section \<open>Properties of the keyframe range mapper\<close>

lemma in_frame_range_int:
  "in_frame_range (JInt s) (JInt e) k = Inr (s \<le> k \<and> k \<le> e)"
  by (simp add: in_frame_range_def json_number_def)

lemma collect_frames_int:
  "collect_frames folder (JInt s) (JInt e) names =
     Inr (map (os_path_join folder)
            (filter (\<lambda>n. is_image_name n \<and>
                       (case py_int (fst (os_path_splitext n)) of None \<Rightarrow> False | Some k \<Rightarrow> s \<le> k \<and> k \<le> e))
               names))"
  by (induction names) (auto simp: in_frame_range_int split: option.splits)

lemma sorted_filter_sort: "sorted (filter P (sort (names :: string list)))"
  using sorted_filter [of "\<lambda>x. x" "sort names" P] by simp

lemma list_keyframes_missing:
  assumes "map_of entry ''file'' = Some (JStr file_field)"
    and "map_of entry ''start_frame'' = Some start_f"
    and "map_of entry ''end_frame'' = Some end_f"
    and "keyframe_node w (keyframe_folder_of base file_field) = Missing"
  shows "list_keyframes_in_range w entry base = Inr []"
  using assms by (simp add: list_keyframes_in_range_def)

lemma list_keyframes_directory:
  assumes "map_of entry ''file'' = Some (JStr file_field)"
    and "map_of entry ''start_frame'' = Some (JInt s)"
    and "map_of entry ''end_frame'' = Some (JInt e)"
    and "keyframe_node w (keyframe_folder_of base file_field) = Directory names"
  shows "list_keyframes_in_range w entry base =
      Inr (map (os_path_join (keyframe_folder_of base file_field))
             (filter (\<lambda>n. is_image_name n \<and>
                        (case py_int (fst (os_path_splitext n)) of
                           None \<Rightarrow> False | Some k \<Rightarrow> s \<le> k \<and> k \<le> e))
                (sort names)))"
  using assms by (simp add: list_keyframes_in_range_def collect_frames_int)

text \<open>A path that exists without being a directory that can be listed makes the lookup raise.\<close>

lemma list_keyframes_not_listable:
  assumes "map_of entry ''file'' = Some (JStr file_field)"
    and "map_of entry ''start_frame'' = Some start_f"
    and "map_of entry ''end_frame'' = Some end_f"
    and "keyframe_node w (keyframe_folder_of base file_field) = NotListable"
  shows "list_keyframes_in_range w entry base = Inl OSError"
  using assms by (simp add: list_keyframes_in_range_def)

text \<open>With well-typed fields and a folder that is missing or can be listed, the lookup returns.\<close>

lemma list_keyframes_returns:
  assumes "map_of entry ''file'' = Some (JStr file_field)"
    and "map_of entry ''start_frame'' = Some (JInt s)"
    and "map_of entry ''end_frame'' = Some (JInt e)"
    and "keyframe_node w (keyframe_folder_of base file_field) \<noteq> NotListable"
  shows "\<exists>frames. list_keyframes_in_range w entry base = Inr frames"
  using assms
  by (cases "keyframe_node w (keyframe_folder_of base file_field)")
     (simp_all add: list_keyframes_in_range_def collect_frames_int)

lemma endswith_iff: "endswith n suffix \<longleftrightarrow> (\<exists>stem. n = stem @ suffix)"
proof
  assume "endswith n suffix"
  then have "n = take (length n - length suffix) n @ suffix"
    by (metis append_take_drop_id endswith_def)
  then show "\<exists>stem. n = stem @ suffix" ..
next
  assume "\<exists>stem. n = stem @ suffix"
  then show "endswith n suffix"
    by (auto simp: endswith_def)
qed

lemma is_image_name_iff:
  "is_image_name n \<longleftrightarrow> (\<exists>stem ext. n = stem @ ext \<and> ext \<in> {''.webp'', ''.jpg'', ''.png''})"
  unfolding is_image_name_def endswith_iff by blast

lemma frame_selected_iff:
  "(is_image_name n \<and>
      (case py_int (fst (os_path_splitext n)) of None \<Rightarrow> False | Some k \<Rightarrow> s \<le> k \<and> k \<le> e)) \<longleftrightarrow>
   (\<exists>stem ext k. n = stem @ ext \<and> ext \<in> {''.webp'', ''.jpg'', ''.png''} \<and>
       py_int stem = Some k \<and> s \<le> k \<and> k \<le> e)"
  (is "?L \<longleftrightarrow> ?R")
proof
  assume l: ?L
  then obtain stem ext where n: "n = stem @ ext" "ext \<in> {''.webp'', ''.jpg'', ''.png''}"
    unfolding is_image_name_iff by blast
  from n(2) have "py_int (fst (os_path_splitext (stem @ ext))) = py_int stem"
    by (rule py_int_splitext_image)
  with l n(1) obtain k where "py_int stem = Some k" "s \<le> k" "k \<le> e"
    by (auto split: option.splits)
  with n show ?R by blast
next
  assume ?R
  then obtain stem ext k where n: "n = stem @ ext" "ext \<in> {''.webp'', ''.jpg'', ''.png''}"
    and k: "py_int stem = Some k" "s \<le> k" "k \<le> e"
    by blast
  from n have "is_image_name n"
    unfolding is_image_name_iff by blast
  moreover from n(2) have "py_int (fst (os_path_splitext (stem @ ext))) = py_int stem"
    by (rule py_int_splitext_image)
  ultimately show ?L
    using n(1) k by simp
qed

text \<open>The folder that the code derives from the \<open>file\<close> field is the directory of the
  specification.\<close>

lemma keyframe_folder_spec:
  assumes "dir = [] \<or> last dir = CHR ''/''"
    and "CHR ''/'' \<notin> set video_name"
    and "\<exists>c\<in>set video_name. c \<noteq> CHR ''.''"
  shows "keyframe_folder_of base (dir @ video_name @ ''.json'') = keyframe_dir_spec base video_name"
proof -
  let ?k = "takeWhile (\<lambda>c. c \<noteq> CHR ''_'') video_name"
  have b: "os_path_basename (dir @ video_name @ ''.json'') = video_name @ ''.json''"
    using assms(1,2) by (simp add: basename_append basename_dir)
  have "dropWhile (\<lambda>c. c = CHR ''.'') video_name \<noteq> []"
    using assms(3) by (simp add: dropWhile_eq_Nil_conv)
  then have "dropWhile (\<lambda>c. c = CHR ''.'') (os_path_basename video_name) \<noteq> []"
    using assms(2) by (simp add: basename_no_sep)
  then have s: "os_path_splitext (video_name @ ''.json'') = (video_name, ''.json'')"
    using splitext_dot [of "''json''" video_name] by simp
  have v1: "video_name \<noteq> []"
    using assms(3) by auto
  then have "hd video_name \<in> set video_name"
    by simp
  with assms(2) have "hd video_name \<noteq> CHR ''/''"
    by auto
  note v = v1 this
  have "CHR ''/'' \<notin> set ?k"
    using assms(2) by (auto dest: set_takeWhileD)
  then have k: "?k \<noteq> [] \<Longrightarrow> hd ?k \<noteq> CHR ''/'' \<and> last ?k \<noteq> CHR ''/''"
    by (metis hd_in_set last_in_set)
  have "os_path_join (os_path_join base ?k) video_name = keyframe_dir_spec base video_name"
  proof (cases "?k = []")
    case True
    with v show ?thesis
      by (auto simp: os_path_join_def keyframe_dir_spec_def)
  next
    case False
    with k have "hd ?k \<noteq> CHR ''/''" "last ?k \<noteq> CHR ''/''" by simp_all
    with False v show ?thesis
      by (simp add: os_path_join_def keyframe_dir_spec_def Let_def)
  qed
  then show ?thesis
    by (simp add: keyframe_folder_of_def b s)
qed

lemma keyframe_dir_spec_plain:
  assumes "base \<noteq> []" and "last base \<noteq> CHR ''/''" and "video_name \<noteq> []"
    and "hd video_name \<noteq> CHR ''_''"
  shows "keyframe_dir_spec base video_name =
     base @ ''/'' @ takeWhile (\<lambda>c. c \<noteq> CHR ''_'') video_name @ ''/'' @ video_name"
  using assms by (cases video_name) (simp_all add: keyframe_dir_spec_def)

lemma keyframe_dir_spec_join:
  assumes "CHR ''/'' \<notin> set video_name" and "video_name \<noteq> []" and "CHR ''/'' \<notin> set n"
  shows "os_path_join (keyframe_dir_spec base video_name) n =
     keyframe_dir_spec base video_name @ ''/'' @ n"
proof -
  have "last video_name \<noteq> CHR ''/''"
    using assms(1,2) by (metis last_in_set)
  then have "keyframe_dir_spec base video_name \<noteq> [] \<and>
      last (keyframe_dir_spec base video_name) \<noteq> CHR ''/''"
    using assms(2) by (simp add: keyframe_dir_spec_def Let_def)
  moreover have "n = [] \<or> hd n \<noteq> CHR ''/''"
    using assms(3) by (metis hd_in_set)
  ultimately show ?thesis
    by (auto simp: os_path_join_def)
qed

lemma selected_no_sep:
  assumes "n = stem @ ext" and "ext \<in> {''.webp'', ''.jpg'', ''.png''}" and "py_int stem = Some k"
  shows "CHR ''/'' \<notin> set n"
proof -
  have "CHR ''/'' \<notin> set stem"
    using assms(3) py_int_no_sep [of stem] by auto
  with assms(1,2) show ?thesis by auto
qed

lemma selected_paths:
  assumes "CHR ''/'' \<notin> set video_name" and "video_name \<noteq> []"
  shows "map (os_path_join (keyframe_dir_spec base video_name))
           (filter (\<lambda>n. is_image_name n \<and>
                      (case py_int (fst (os_path_splitext n)) of
                         None \<Rightarrow> False | Some k \<Rightarrow> s \<le> k \<and> k \<le> e)) xs) =
         map (\<lambda>n. keyframe_dir_spec base video_name @ ''/'' @ n)
           (filter (\<lambda>n. \<exists>stem ext k. n = stem @ ext \<and> ext \<in> {''.webp'', ''.jpg'', ''.png''} \<and>
                      py_int stem = Some k \<and> s \<le> k \<and> k \<le> e) xs)"
  unfolding frame_selected_iff
proof (rule map_cong [OF refl])
  fix n
  assume "n \<in> set (filter (\<lambda>n. \<exists>stem ext k. n = stem @ ext \<and> ext \<in> {''.webp'', ''.jpg'', ''.png''} \<and>
                      py_int stem = Some k \<and> s \<le> k \<and> k \<le> e) xs)"
  then obtain stem ext k where "n = stem @ ext" "ext \<in> {''.webp'', ''.jpg'', ''.png''}"
      "py_int stem = Some k"
    by auto
  then have "CHR ''/'' \<notin> set n"
    by (rule selected_no_sep)
  with assms show "os_path_join (keyframe_dir_spec base video_name) n =
      keyframe_dir_spec base video_name @ ''/'' @ n"
    by (rule keyframe_dir_spec_join)
qed

text \<open>
  Claim C3. For a result document whose \<open>file\<close> is the path of the transcript
  \<open><video name>.json\<close> and whose \<open>start_frame\<close> and \<open>end_frame\<close> are integers, and a keyframe
  root: if nothing exists at the derived directory \<open>root/<collection folder>/<video name>\<close>,
  where the collection folder is the part of the video name before its first underscore,
  the result is the empty list; if it is a directory, the result is exactly the paths
  \<open><directory>/<name>\<close> of the listed names that consist of a base name and one of the three
  image extensions and whose base name parses as an integer in the inclusive range from
  \<open>start_frame\<close> to \<open>end_frame\<close> (names that do not parse are skipped), in the
  lexicographic order of the names. The decimal numeral of a number parses to that number.
  For the frames 90, 105 and 130 and the range 100 to 120 the result is exactly the path
  of frame 105.
\<close>

theorem keyframes_in_range:
  assumes "map_of entry ''file'' = Some (JStr (dir @ video_name @ ''.json''))"
    and "dir = [] \<or> last dir = CHR ''/''"
    and "CHR ''/'' \<notin> set video_name"
    and "\<exists>c\<in>set video_name. c \<noteq> CHR ''.''"
    and "map_of entry ''start_frame'' = Some (JInt s)"
    and "map_of entry ''end_frame'' = Some (JInt e)"
  shows "(keyframe_node w (keyframe_dir_spec base video_name) = Missing \<longrightarrow>
            list_keyframes_in_range w entry base = Inr []) \<and>
         (keyframe_node w (keyframe_dir_spec base video_name) = Directory names \<longrightarrow>
            list_keyframes_in_range w entry base =
              Inr (map (\<lambda>n. keyframe_dir_spec base video_name @ ''/'' @ n)
                     (filter (\<lambda>n. \<exists>stem ext k. n = stem @ ext \<and>
                                ext \<in> {''.webp'', ''.jpg'', ''.png''} \<and>
                                py_int stem = Some k \<and> s \<le> k \<and> k \<le> e)
                        (sort names))) \<and>
            sorted (filter (\<lambda>n. \<exists>stem ext k. n = stem @ ext \<and>
                                ext \<in> {''.webp'', ''.jpg'', ''.png''} \<and>
                                py_int stem = Some k \<and> s \<le> k \<and> k \<le> e)
                        (sort names))) \<and>
         (base \<noteq> [] \<and> last base \<noteq> CHR ''/'' \<and> hd video_name \<noteq> CHR ''_'' \<longrightarrow>
            keyframe_dir_spec base video_name =
              base @ ''/'' @ takeWhile (\<lambda>c. c \<noteq> CHR ''_'') video_name @ ''/'' @ video_name) \<and>
         (\<forall>k. length (dec k) \<le> 4300 \<longrightarrow> py_int (dec k) = Some (int k)) \<and>
         list_keyframes_in_range (keyframes_world [''90.jpg'', ''105.jpg'', ''130.jpg'']) frame_hit ''kf'' =
           Inr [''kf/K01/K01_V001/105.jpg'']"
proof -
  have f: "keyframe_folder_of base (dir @ video_name @ ''.json'') = keyframe_dir_spec base video_name"
    using assms(2,3,4) by (rule keyframe_folder_spec)
  have v: "video_name \<noteq> []"
    using assms(4) by auto
  have 1: "list_keyframes_in_range w entry base = Inr []"
    if "keyframe_node w (keyframe_dir_spec base video_name) = Missing"
    using assms(1,5,6) that by (simp add: list_keyframes_missing f)
  have 2: "list_keyframes_in_range w entry base =
      Inr (map (\<lambda>n. keyframe_dir_spec base video_name @ ''/'' @ n)
             (filter (\<lambda>n. \<exists>stem ext k. n = stem @ ext \<and>
                        ext \<in> {''.webp'', ''.jpg'', ''.png''} \<and>
                        py_int stem = Some k \<and> s \<le> k \<and> k \<le> e)
                (sort names)))"
    if "keyframe_node w (keyframe_dir_spec base video_name) = Directory names"
  proof -
    from that have "keyframe_node w (keyframe_folder_of base (dir @ video_name @ ''.json'')) =
        Directory names"
      by (simp add: f)
    from list_keyframes_directory [OF assms(1,5,6) this] show ?thesis
      unfolding f selected_paths [OF assms(3) v] .
  qed
  have 3: "sorted (filter (\<lambda>n. \<exists>stem ext k. n = stem @ ext \<and>
                                ext \<in> {''.webp'', ''.jpg'', ''.png''} \<and>
                                py_int stem = Some k \<and> s \<le> k \<and> k \<le> e)
                        (sort names))"
    by (rule sorted_filter_sort)
  have 4: "keyframe_dir_spec base video_name =
      base @ ''/'' @ takeWhile (\<lambda>c. c \<noteq> CHR ''_'') video_name @ ''/'' @ video_name"
    if "base \<noteq> [] \<and> last base \<noteq> CHR ''/'' \<and> hd video_name \<noteq> CHR ''_''"
    using that v by (simp add: keyframe_dir_spec_plain)
  have 5: "\<forall>k. length (dec k) \<le> 4300 \<longrightarrow> py_int (dec k) = Some (int k)"
    by (simp add: py_int_dec)
  have 6: "list_keyframes_in_range (keyframes_world [''90.jpg'', ''105.jpg'', ''130.jpg'']) frame_hit ''kf'' =
           Inr [''kf/K01/K01_V001/105.jpg'']"
    by code_simp
  from 1 2 3 4 5 6 show ?thesis
    by (intro conjI impI)
qed

theorem keyframes_in_range_witness:
  "map_of frame_hit ''file'' = Some (JStr (''d/'' @ ''K01_V001'' @ ''.json'')) \<and>
   last ''d/'' = CHR ''/'' \<and>
   CHR ''/'' \<notin> set ''K01_V001'' \<and>
   (\<exists>c\<in>set ''K01_V001''. c \<noteq> CHR ''.'') \<and>
   map_of frame_hit ''start_frame'' = Some (JInt 100) \<and>
   map_of frame_hit ''end_frame'' = Some (JInt 120) \<and>
   keyframe_dir_spec ''kf'' ''K01_V001'' = ''kf/K01/K01_V001'' \<and>
   keyframe_node (keyframes_world [''7.png'', ''110.webp'', ''x.jpg'', ''102.jpg'', ''103.txt''])
     ''kf/K01/K01_V001'' = Directory [''7.png'', ''110.webp'', ''x.jpg'', ''102.jpg'', ''103.txt''] \<and>
   list_keyframes_in_range
     (keyframes_world [''7.png'', ''110.webp'', ''x.jpg'', ''102.jpg'', ''103.txt'']) frame_hit ''kf'' =
       Inr [''kf/K01/K01_V001/102.jpg'', ''kf/K01/K01_V001/110.webp''] \<and>
   keyframe_dir_spec ''other'' ''K01_V001'' = ''other/K01/K01_V001'' \<and>
   keyframe_node (keyframes_world []) ''other/K01/K01_V001'' = Missing \<and>
   list_keyframes_in_range (keyframes_world []) frame_hit ''other'' = Inr [] \<and>
   dec 105 = ''105'' \<and> py_int ''105'' = Some 105"
proof -
  let ?names = "[''7.png'', ''110.webp'', ''x.jpg'', ''102.jpg'', ''103.txt'']"
  have f: "map_of frame_hit ''file'' = Some (JStr (''d/'' @ ''K01_V001'' @ ''.json''))"
    by (simp add: frame_hit_def)
  have l: "''d/'' = [] \<or> last ''d/'' = CHR ''/''"
    by simp
  have n: "CHR ''/'' \<notin> set ''K01_V001''"
    by simp
  have x: "\<exists>c\<in>set ''K01_V001''. c \<noteq> CHR ''.''"
    by simp
  have s: "map_of frame_hit ''start_frame'' = Some (JInt 100)"
    by (simp add: frame_hit_def)
  have e: "map_of frame_hit ''end_frame'' = Some (JInt 120)"
    by (simp add: frame_hit_def)
  have k1: "keyframe_dir_spec ''kf'' ''K01_V001'' = ''kf/K01/K01_V001''"
    by code_simp
  have k2: "keyframe_dir_spec ''other'' ''K01_V001'' = ''other/K01/K01_V001''"
    by code_simp
  have d: "keyframe_node (keyframes_world ?names) ''kf/K01/K01_V001'' = Directory ?names"
    by code_simp
  have m: "keyframe_node (keyframes_world []) ''other/K01/K01_V001'' = Missing"
    by code_simp
  have v: "map (\<lambda>n. ''kf/K01/K01_V001'' @ ''/'' @ n)
             (filter (\<lambda>n. \<exists>stem ext k. n = stem @ ext \<and>
                        ext \<in> {''.webp'', ''.jpg'', ''.png''} \<and>
                        py_int stem = Some k \<and> 100 \<le> k \<and> k \<le> 120)
                (sort ?names)) =
      [''kf/K01/K01_V001/102.jpg'', ''kf/K01/K01_V001/110.webp'']"
    unfolding frame_selected_iff [symmetric] by code_simp
  have c: "dec 105 = ''105''"
    by code_simp
  have c4: "length (dec 105) \<le> 4300"
    unfolding c by simp
  note th = keyframes_in_range [OF f l n x s e]
  have 1: "list_keyframes_in_range (keyframes_world ?names) frame_hit ''kf'' =
      Inr [''kf/K01/K01_V001/102.jpg'', ''kf/K01/K01_V001/110.webp'']"
    using th [of "keyframes_world ?names" "''kf''" ?names,
        THEN conjunct2, THEN conjunct1, rule_format, THEN conjunct1] d
    unfolding k1 v by simp
  have 2: "list_keyframes_in_range (keyframes_world []) frame_hit ''other'' = Inr []"
    using th [of "keyframes_world []" "''other''" "[]", THEN conjunct1, rule_format] m
    unfolding k2 by simp
  have 3: "py_int ''105'' = Some 105"
    using th [of "keyframes_world []" "''other''" "[]",
        THEN conjunct2, THEN conjunct2, THEN conjunct2, THEN conjunct1, rule_format, OF c4]
    unfolding c by simp
  have l': "last ''d/'' = CHR ''/''"
    by simp
  from f l' n x s e k1 d 1 k2 m 2 c 3 show ?thesis
    by (intro conjI)
qed

section \<open>Properties of the retrieval engine\<close>

lemma search_lexical_only:
  "\<not> use_semantic self \<Longrightarrow>
   es_search w (index_name self) (keyword_query query k use_fuzzy) = Inr hits \<Longrightarrow>
   search w self query k use_fuzzy = Inr [(''keyword'', hits)]"
  by (simp add: search_def)

text \<open>The keyframes of a list of such hits can be attached: \<open>attach_frames\<close> returns.\<close>

lemma attach_frames_returns:
  assumes "\<forall>r \<in> set hits. \<exists>file_field s e.
      map_of r ''file'' = Some (JStr file_field) \<and>
      map_of r ''start_frame'' = Some (JInt s) \<and>
      map_of r ''end_frame'' = Some (JInt e) \<and>
      keyframe_node w (keyframe_folder_of base file_field) \<noteq> NotListable"
  shows "\<exists>out. attach_frames w base hits = Inr out"
  using assms
proof (induction hits)
  case Nil
  then show ?case by simp
next
  case (Cons r hits)
  from Cons.prems obtain file_field s e where
    "map_of r ''file'' = Some (JStr file_field)"
    "map_of r ''start_frame'' = Some (JInt s)"
    "map_of r ''end_frame'' = Some (JInt e)"
    "keyframe_node w (keyframe_folder_of base file_field) \<noteq> NotListable"
    by auto
  then obtain frames where f: "list_keyframes_in_range w r base = Inr frames"
    using list_keyframes_returns by blast
  from Cons obtain out where "attach_frames w base hits = Inr out"
    by auto
  with f show ?case
    by simp
qed

text \<open>
  Claim C6, as the code has it. With vector search enabled, once the lexical query has
  returned and the query has been embedded, a failure of the vector query to the index
  is caught: the result holds the lexical list unchanged and an empty vector list.
\<close>

theorem vector_query_failure_keeps_lexical:
  "use_semantic self \<Longrightarrow>
   es_search w (index_name self) (keyword_query query k use_fuzzy) = Inr hits \<Longrightarrow>
   encode w query = Some query_vec \<Longrightarrow>
   es_search w (index_name self) (semantic_query query_vec k) = Inl e \<Longrightarrow>
   search w self query k use_fuzzy = Inr [(''keyword'', hits), (''semantic'', [])]"
  by (simp add: search_def)

theorem vector_query_failure_keeps_lexical_witness:
  "use_semantic (demo_engine True Map.empty) \<and>
   es_search (search_world (\<lambda>q. Some [0, 0, 0])) (index_name (demo_engine True Map.empty))
     (keyword_query ''hi'' 3 False) = Inr [frame_hit] \<and>
   encode (search_world (\<lambda>q. Some [0, 0, 0])) ''hi'' = Some [0, 0, 0] \<and>
   es_search (search_world (\<lambda>q. Some [0, 0, 0])) (index_name (demo_engine True Map.empty))
     (semantic_query [0, 0, 0] 3) = Inl EngineError \<and>
   search (search_world (\<lambda>q. Some [0, 0, 0])) (demo_engine True Map.empty) ''hi'' 3 False =
     Inr [(''keyword'', [frame_hit]), (''semantic'', [])]"
proof -
  let ?w = "search_world (\<lambda>q. Some [0, 0, 0])"
  let ?e = "demo_engine True Map.empty"
  have a: "use_semantic ?e"
    by (simp add: demo_engine_def)
  have b: "es_search ?w (index_name ?e) (keyword_query ''hi'' 3 False) = Inr [frame_hit]"
    by (simp add: search_world_def keyword_query_def)
  have c: "encode ?w ''hi'' = Some [0, 0, 0]"
    by (simp add: search_world_def)
  have d: "es_search ?w (index_name ?e) (semantic_query [0, 0, 0] 3) = Inl EngineError"
    by (simp add: search_world_def semantic_query_def)
  have "search ?w ?e ''hi'' 3 False = Inr [(''keyword'', [frame_hit]), (''semantic'', [])]"
    using a b c d by (rule vector_query_failure_keeps_lexical)
  with a b c d show ?thesis
    by (intro conjI)
qed

text \<open>
  The embedding of the query stands outside the \<open>try\<close>: when \<open>model.encode\<close> raises, the
  exception leaves \<open>search\<close>, and the lexical list that the index had returned is lost.
\<close>

theorem encode_failure_aborts_search_counterexample:
  "use_semantic (demo_engine True Map.empty) \<and>
   es_search (search_world (\<lambda>q. None)) (index_name (demo_engine True Map.empty))
     (keyword_query ''hi'' 3 False) = Inr [frame_hit] \<and>
   search (search_world (\<lambda>q. None)) (demo_engine True Map.empty) ''hi'' 3 False = Inl ModelError"
  by (simp add: search_def search_world_def keyword_query_def demo_engine_def)

text \<open>
  Claim C10. With vector search disabled, a call of \<open>search\<close> whose lexical query returns
  gives a dictionary with the one key \<open>keyword\<close> and no key \<open>semantic\<close>; the call of
  \<open>search_with_frames\<close> under the same configuration, once the keyframes of the hits have
  been attached, gives a dictionary with the two keys \<open>semantic\<close> and \<open>keyword\<close>, the
  \<open>semantic\<close> list being empty.
\<close>

theorem lexical_only_result_keys:
  assumes "\<not> use_semantic self"
    and "es_search w (index_name self) (keyword_query query k use_fuzzy) = Inr hits"
    and "attach_frames w (base_keyframe_dir self) hits = Inr out"
  shows "search w self query k use_fuzzy = Inr [(''keyword'', hits)] \<and>
         search_with_frames w self query k use_fuzzy = Inr [(''semantic'', []), (''keyword'', out)]"
  using assms by (simp add: search_with_frames_def search_lexical_only results_get_def)

theorem lexical_only_result_keys_witness:
  "\<not> use_semantic (demo_engine False Map.empty) \<and>
   es_search (search_world (\<lambda>q. None)) (index_name (demo_engine False Map.empty))
     (keyword_query ''hi'' 3 True) = Inr [frame_hit] \<and>
   attach_frames (search_world (\<lambda>q. None)) (base_keyframe_dir (demo_engine False Map.empty)) [frame_hit] =
     Inr [frame_hit @ [(''frames'', JArr []), (''num_frames'', JInt 0)]] \<and>
   search (search_world (\<lambda>q. None)) (demo_engine False Map.empty) ''hi'' 3 True =
     Inr [(''keyword'', [frame_hit])] \<and>
   search_with_frames (search_world (\<lambda>q. None)) (demo_engine False Map.empty) ''hi'' 3 True =
     Inr [(''semantic'', []),
          (''keyword'', [frame_hit @ [(''frames'', JArr []), (''num_frames'', JInt 0)]])]"
proof -
  let ?w = "search_world (\<lambda>q. None)"
  let ?e = "demo_engine False Map.empty"
  have a: "\<not> use_semantic ?e"
    by (simp add: demo_engine_def)
  have b: "es_search ?w (index_name ?e) (keyword_query ''hi'' 3 True) = Inr [frame_hit]"
    by (simp add: search_world_def keyword_query_def)
  have c: "attach_frames ?w (base_keyframe_dir ?e) [frame_hit] =
      Inr [frame_hit @ [(''frames'', JArr []), (''num_frames'', JInt 0)]]"
    by code_simp
  note th = lexical_only_result_keys [OF a b c]
  from a b c th [THEN conjunct1] th [THEN conjunct2] show ?thesis
    by (intro conjI)
qed

section \<open>Properties of the import\<close>

lemma indices_add_docs: "n \<noteq> index \<Longrightarrow> indices (add_docs c index ds) n = indices c n"
  by (simp add: add_docs_def split: option.splits)

lemma indices_import_batches:
  "n \<noteq> index \<Longrightarrow>
   indices (fst (import_batches w env input_dir regen index nums (c, i, e))) n = indices c n"
proof (induction nums arbitrary: c i e)
  case Nil
  then show ?case by simp
next
  case (Cons b nums)
  then show ?case
    by (simp add: indices_add_docs split: option.splits sum.splits)
qed

lemma import_creates_only_target:
  assumes "n \<noteq> index"
  shows "indices (fst (if \<not> create_ok env then (c1, Raised EngineError)
                       else case py_range total_batches of
                              None \<Rightarrow> (c1\<lparr>indices := (indices c1)(index \<mapsto> fresh)\<rparr>, Raised TypeError)
                            | Some batch_nums \<Rightarrow>
                                import_batches w env input_dir regen index batch_nums
                                  (c1\<lparr>indices := (indices c1)(index \<mapsto> fresh)\<rparr>, 0, 0))) n = indices c1 n"
  using assms by (simp add: indices_import_batches split: option.splits)

text \<open>Without the answer \<open>yes\<close>, every index that exists before the call is the same after it.\<close>

lemma import_unconfirmed_keeps_indices:
  assumes "case answer env of None \<Rightarrow> True | Some response \<Rightarrow> py_lower response \<noteq> ''yes''"
    and "indices c n \<noteq> None"
  shows "indices (fst (import_index_from_files w env c input_dir regen)) n = indices c n"
proof (cases "\<not> input_dir_exists env \<or> \<not> alive c")
  case True
  then show ?thesis by (auto simp: import_index_from_files_def)
next
  case False
  show ?thesis
  proof (cases "read_export env input_dir")
    case (Inl e)
    with False show ?thesis by (simp add: import_index_from_files_def)
  next
    case (Inr r)
    show ?thesis
    proof (cases r)
      case None
      with Inr False show ?thesis by (simp add: import_index_from_files_def)
    next
      case (Some t)
      obtain index tb m where t: "t = (index, tb, m)" by (cases t)
      show ?thesis
      proof (cases "indices c index")
        case None
        with assms(2) have ne: "n \<noteq> index" by auto
        show ?thesis
          using False Inr Some t None import_creates_only_target [OF ne]
          by (simp add: import_index_from_files_def Let_def)
      next
        case (Some ix)
        with assms(1) False Inr \<open>r = Some t\<close> t show ?thesis
          by (simp add: import_index_from_files_def Let_def split: option.splits)
      qed
    qed
  qed
qed

lemma import_refused_cancels:
  assumes "input_dir_exists env" and "alive c"
    and "read_export env input_dir = Inr (Some (index, tb, m))"
    and "indices c index \<noteq> None"
    and "answer env = Some response" and "py_lower response \<noteq> ''yes''"
  shows "import_index_from_files w env c input_dir regen = (c, Cancelled)"
  using assms by (simp add: import_index_from_files_def Let_def)

text \<open>With the answer \<open>YES\<close> the existing index is deleted and created again from the export.\<close>

lemma import_confirmed_replaces:
  "map_option docs
     (indices (fst (import_index_from_files (demo_world good_transcript) (import_demo (Some ''YES''))
                      (live_cluster [frame_hit]) ''elasticsearch_data'' False)) ''speech_index'') =
   Some [[(''text'', JStr ''hi''), (''embedding'', JNull)]]"
  by code_simp

text \<open>
  Claim C5. When the operator's answer at the prompt is not \<open>yes\<close> (in any letter case), or
  there is no answer, an import changes no index that exists: the index named by the
  export is neither deleted nor created again; and when that index exists and the
  answer is given and is not \<open>yes\<close>, the import ends as cancelled with the whole cluster,
  the existing index and its documents included, unchanged.
\<close>

theorem import_needs_confirmation:
  assumes "case answer env of None \<Rightarrow> True | Some response \<Rightarrow> py_lower response \<noteq> ''yes''"
  shows "(\<forall>n. indices c n \<noteq> None \<longrightarrow>
            indices (fst (import_index_from_files w env c input_dir regen)) n = indices c n) \<and>
         (\<forall>index tb m response.
            input_dir_exists env \<and> alive c \<and>
            read_export env input_dir = Inr (Some (index, tb, m)) \<and>
            indices c index \<noteq> None \<and> answer env = Some response \<longrightarrow>
            import_index_from_files w env c input_dir regen = (c, Cancelled))"
proof (intro conjI allI impI)
  fix n
  assume "indices c n \<noteq> None"
  with assms show "indices (fst (import_index_from_files w env c input_dir regen)) n = indices c n"
    by (rule import_unconfirmed_keeps_indices)
next
  fix index tb m response
  assume a: "input_dir_exists env \<and> alive c \<and>
      read_export env input_dir = Inr (Some (index, tb, m)) \<and>
      indices c index \<noteq> None \<and> answer env = Some response"
  with assms have "py_lower response \<noteq> ''yes''"
    by simp
  with a show "import_index_from_files w env c input_dir regen = (c, Cancelled)"
    by (simp add: import_refused_cancels)
qed

theorem import_needs_confirmation_witness:
  "answer (import_demo (Some ''no'')) = Some ''no'' \<and>
   py_lower ''no'' \<noteq> ''yes'' \<and>
   input_dir_exists (import_demo (Some ''no'')) \<and>
   alive (live_cluster [frame_hit]) \<and>
   read_export (import_demo (Some ''no'')) ''elasticsearch_data'' =
     Inr (Some (''speech_index'', JInt 1, JObj [(''properties'', JObj [])])) \<and>
   indices (live_cluster [frame_hit]) ''speech_index'' \<noteq> None \<and>
   indices (fst (import_index_from_files (demo_world good_transcript) (import_demo (Some ''no''))
                   (live_cluster [frame_hit]) ''elasticsearch_data'' True)) ''speech_index'' =
     indices (live_cluster [frame_hit]) ''speech_index'' \<and>
   import_index_from_files (demo_world good_transcript) (import_demo (Some ''no''))
       (live_cluster [frame_hit]) ''elasticsearch_data'' True =
     (live_cluster [frame_hit], Cancelled)"
proof -
  let ?env = "import_demo (Some ''no'')"
  let ?c = "live_cluster [frame_hit]"
  let ?w = "demo_world good_transcript"
  have a: "answer ?env = Some ''no''"
    by (simp add: import_demo_def)
  have l: "py_lower ''no'' \<noteq> ''yes''"
    by code_simp
  have h: "case answer ?env of None \<Rightarrow> True | Some response \<Rightarrow> py_lower response \<noteq> ''yes''"
    using a l by simp
  have d: "input_dir_exists ?env"
    by (simp add: import_demo_def)
  have p: "alive ?c"
    by (simp add: live_cluster_def)
  have r: "read_export ?env ''elasticsearch_data'' =
      Inr (Some (''speech_index'', JInt 1, JObj [(''properties'', JObj [])]))"
    by code_simp
  have x: "indices ?c ''speech_index'' \<noteq> None"
    by (simp add: live_cluster_def)
  note th = import_needs_confirmation [OF h, of ?c ?w "''elasticsearch_data''" True]
  have 1: "indices (fst (import_index_from_files ?w ?env ?c ''elasticsearch_data'' True)) ''speech_index'' =
      indices ?c ''speech_index''"
    using th [THEN conjunct1, rule_format, OF x] .
  have "input_dir_exists ?env \<and> alive ?c \<and>
      read_export ?env ''elasticsearch_data'' =
        Inr (Some (''speech_index'', JInt 1, JObj [(''properties'', JObj [])])) \<and>
      indices ?c ''speech_index'' \<noteq> None \<and> answer ?env = Some ''no''"
    using d p r x a by (intro conjI)
  then have 2: "import_index_from_files ?w ?env ?c ''elasticsearch_data'' True = (?c, Cancelled)"
    by (rule th [THEN conjunct2, rule_format])
  from a l d p r x 1 2 show ?thesis
    by (intro conjI)
qed

section \<open>Properties of the export\<close>

lemma chunks_nonempty: "ys \<in> set (chunks n xs) \<Longrightarrow> ys \<noteq> []"
proof (induction n xs rule: chunks.induct)
  case (1 n xs)
  then show ?case
    by (subst (asm) chunks.simps) (auto split: if_splits)
qed

lemma export_batches_count:
  "\<forall>p \<in> set pages. p \<noteq> [] \<Longrightarrow>
   snd (export_batches dir n e (pages @ [[]])) = (n + length pages, e + length (concat pages))"
  by (induction pages arbitrary: n e) (simp_all add: Let_def)

lemma export_batches_names:
  "\<forall>p \<in> set pages. p \<noteq> [] \<Longrightarrow>
   map fst (fst (export_batches dir n e (pages @ [[]]))) =
     map (\<lambda>i. os_path_join dir (batch_file_name i)) [n..<n + length pages]"
proof (induction pages arbitrary: n e)
  case Nil
  then show ?case by simp
next
  case (Cons p pages)
  have "[n..<n + length (p # pages)] = n # [Suc n..<Suc n + length pages]"
    by (simp add: upt_rec [of n] del: upt_Suc)
  with Cons show ?case
    by (simp add: Let_def del: upt_Suc)
qed

lemma export_batches_data:
  "\<forall>p \<in> set pages. p \<noteq> [] \<Longrightarrow>
   map snd (fst (export_batches dir n e (pages @ [[]]))) = map (map null_embedding) pages"
  by (induction pages arbitrary: n e) (simp_all add: Let_def)

lemma ceil_div_small:
  fixes m n :: nat
  assumes "0 < m" and "m \<le> n"
  shows "(m + (n - 1)) div n = 1"
proof -
  have "n * 1 \<le> m + (n - 1)"
    using assms by arith
  moreover have "m + (n - 1) < n * Suc 1"
    using assms by arith
  ultimately show ?thesis
    by (rule div_nat_eqI)
qed

lemma ceil_div_step:
  fixes m n :: nat
  assumes "0 < n" and "n < m"
  shows "(m + (n - 1)) div n = Suc ((m - n + (n - 1)) div n)"
proof -
  have "m + (n - 1) = (m - n + (n - 1)) + n"
    using assms by arith
  then have "(m + (n - 1)) div n = ((m - n + (n - 1)) + n) div n"
    by (rule arg_cong)
  also have "\<dots> = (m - n + (n - 1)) div n + 1"
  proof (rule div_add_self2)
    show "n \<noteq> 0" using assms(1) by arith
  qed
  also have "\<dots> = Suc ((m - n + (n - 1)) div n)"
    by (rule Suc_eq_plus1 [symmetric])
  finally show ?thesis .
qed

lemma length_chunks: "0 < n \<Longrightarrow> length (chunks n xs) = (length xs + (n - 1)) div n"
proof (induction n xs rule: chunks.induct)
  case (1 n xs)
  show ?case
  proof (cases "xs = []")
    case True
    then show ?thesis
      using 1(2) by (subst chunks.simps) simp
  next
    case False
    have step: "length (chunks n xs) = Suc (length (chunks n (drop n xs)))"
      using False 1(2) by (subst chunks.simps) simp
    have IH: "length (chunks n (drop n xs)) = (length xs - n + (n - 1)) div n"
      using 1(1) False 1(2) by simp
    show ?thesis
    proof (cases "length xs \<le> n")
      case True
      from False have pos: "0 < length xs" by simp
      have "drop n xs = []"
        using True by simp
      then have "chunks n (drop n xs) = []"
        by (subst chunks.simps) simp
      then show ?thesis
        unfolding step using ceil_div_small [OF pos True] by simp
    next
      case False
      then have "n < length xs" by simp
      from ceil_div_step [OF 1(2) this] show ?thesis
        unfolding step IH by simp
    qed
  qed
qed

lemma undec_zeros: "undec (replicate k CHR ''0'' @ s) = undec s"
proof -
  have "foldl (\<lambda>a ch. 10 * a + digit_val ch) 0 (replicate k CHR ''0'') = 0"
    by (induction k) (simp_all add: digit_val_def)
  then show ?thesis
    by (simp add: undec_def)
qed

lemma batch_file_name_inj: "batch_file_name m = batch_file_name n \<Longrightarrow> m = n"
proof -
  assume "batch_file_name m = batch_file_name n"
  then have "replicate (4 - length (dec m)) CHR ''0'' @ dec m =
      replicate (4 - length (dec n)) CHR ''0'' @ dec n"
    by (simp add: batch_file_name_def)
  then have "undec (replicate (4 - length (dec m)) CHR ''0'' @ dec m) =
      undec (replicate (4 - length (dec n)) CHR ''0'' @ dec n)"
    by (rule arg_cong)
  then show "m = n"
    by (simp only: undec_zeros undec_dec)
qed

lemma join_batch_file_name_inj:
  "os_path_join dir (batch_file_name m) = os_path_join dir (batch_file_name n) \<Longrightarrow> m = n"
proof -
  have h: "batch_file_name k \<noteq> [] \<and> hd (batch_file_name k) \<noteq> CHR ''/''" for k
    by (simp add: batch_file_name_def)
  assume "os_path_join dir (batch_file_name m) = os_path_join dir (batch_file_name n)"
  then have "batch_file_name m = batch_file_name n"
    using h [of m] h [of n] by (simp add: os_path_join_def split: if_splits)
  then show ?thesis
    by (rule batch_file_name_inj)
qed

lemma distinct_batch_paths: "distinct (map (\<lambda>i. os_path_join dir (batch_file_name i)) [n..<n + k])"
  by (simp add: distinct_map inj_on_def join_batch_file_name_inj)

lemma get_null_embedding: "dict_get (null_embedding d) ''embedding'' = JNull"
  by (simp add: null_embedding_def dict_get_def update_conv')

lemma export_result:
  assumes "alive c" and "indices c index = Some ix"
    and "0 < batch_size" and "batch_size \<le> max_result_window c"
  shows "export_index_to_files c index output_dir batch_size =
     Inr (Some
       \<lparr>mapping_file = (os_path_join output_dir ''mapping.json'',
                        JObj [(index, JObj [(''mappings'', mappings ix)])]),
        batch_files = fst (export_batches output_dir 0 0 (chunks batch_size (docs ix) @ [[]])),
        metadata_file = (os_path_join output_dir ''metadata.json'',
          [(''index_name'', JStr index),
           (''total_documents'', JInt (int (length (docs ix)))),
           (''total_batches'', JInt (int (length (chunks batch_size (docs ix))))),
           (''batch_size'', JInt (int batch_size)),
           (''note'', JStr ''embedding=None will be regenerated on import'')]),
        exported_total = length (docs ix)\<rparr>)"
proof -
  have ne: "\<forall>p \<in> set (chunks batch_size (docs ix)). p \<noteq> []"
    using chunks_nonempty by blast
  have cnt: "snd (export_batches output_dir 0 0 (chunks batch_size (docs ix) @ [[]])) =
      (length (chunks batch_size (docs ix)), length (docs ix))"
    using export_batches_count [OF ne, of output_dir 0 0] assms(3)
    by (simp add: concat_chunks)
  show ?thesis
    using assms by (simp add: export_index_to_files_def scroll_pages_def Let_def cnt)
qed

lemma export_completed:
  assumes "export_index_to_files c index output_dir batch_size = Inr (Some out)"
  shows "\<exists>ix. alive c \<and> indices c index = Some ix \<and> 0 < batch_size \<and> batch_size \<le> max_result_window c"
  using assms
  by (auto simp: export_index_to_files_def scroll_pages_def Let_def split: if_splits option.splits)

lemma export_facts:
  assumes "alive c" and "indices c index = Some ix"
    and "0 < batch_size" and "batch_size \<le> max_result_window c"
    and "export_index_to_files c index output_dir batch_size = Inr (Some out)"
  shows "dict_get (snd (metadata_file out)) ''total_documents'' = JInt (int (length (docs ix)))"
    and "dict_get (snd (metadata_file out)) ''total_batches'' = JInt (int (length (batch_files out)))"
    and "sum_list (map (\<lambda>b. length (snd b)) (batch_files out)) = length (docs ix)"
    and "distinct (map fst (batch_files out))"
    and "\<forall>b \<in> set (batch_files out). \<forall>d \<in> set (snd b). dict_get d ''embedding'' = JNull"
    and "length (batch_files out) = (length (docs ix) + (batch_size - 1)) div batch_size"
proof -
  let ?pages = "chunks batch_size (docs ix)"
  let ?done = "export_batches output_dir 0 0 (?pages @ [[]])"
  have ne: "\<forall>p \<in> set ?pages. p \<noteq> []"
    using chunks_nonempty by blast
  have out: "out = \<lparr>mapping_file = (os_path_join output_dir ''mapping.json'',
                        JObj [(index, JObj [(''mappings'', mappings ix)])]),
        batch_files = fst ?done,
        metadata_file = (os_path_join output_dir ''metadata.json'',
          [(''index_name'', JStr index),
           (''total_documents'', JInt (int (length (docs ix)))),
           (''total_batches'', JInt (int (length ?pages))),
           (''batch_size'', JInt (int batch_size)),
           (''note'', JStr ''embedding=None will be regenerated on import'')]),
        exported_total = length (docs ix)\<rparr>"
    using export_result [OF assms(1-4), of output_dir] assms(5) by simp
  have names: "map fst (batch_files out) =
      map (\<lambda>i. os_path_join output_dir (batch_file_name i)) [0..<0 + length ?pages]"
    using export_batches_names [OF ne, of output_dir 0 0] by (simp add: out)
  have data: "map snd (batch_files out) = map (map null_embedding) ?pages"
    using export_batches_data [OF ne, of output_dir 0 0] by (simp add: out)
  have len: "length (batch_files out) = length ?pages"
    using arg_cong [OF data, of length] by simp
  show "dict_get (snd (metadata_file out)) ''total_documents'' = JInt (int (length (docs ix)))"
    by (simp add: out dict_get_def)
  show "dict_get (snd (metadata_file out)) ''total_batches'' = JInt (int (length (batch_files out)))"
    unfolding len by (simp add: out dict_get_def)
  have "sum_list (map (\<lambda>b. length (snd b)) (batch_files out)) =
      sum_list (map length (map snd (batch_files out)))"
    by (simp add: comp_def)
  also have "\<dots> = sum_list (map length ?pages)"
    unfolding data by (simp add: comp_def)
  also have "\<dots> = length (concat ?pages)"
    by (simp add: length_concat)
  also have "\<dots> = length (docs ix)"
    using assms(3) by (simp add: concat_chunks)
  finally show "sum_list (map (\<lambda>b. length (snd b)) (batch_files out)) = length (docs ix)" .
  show "distinct (map fst (batch_files out))"
    unfolding names by (rule distinct_batch_paths)
  show "\<forall>b \<in> set (batch_files out). \<forall>d \<in> set (snd b). dict_get d ''embedding'' = JNull"
  proof (intro ballI)
    fix b d
    assume "b \<in> set (batch_files out)" and d: "d \<in> set (snd b)"
    then have "snd b \<in> set (map snd (batch_files out))"
      by simp
    then have "snd b \<in> set (map (map null_embedding) ?pages)"
      unfolding data .
    then obtain p where "snd b = map null_embedding p"
      by auto
    with d obtain d0 where "d = null_embedding d0"
      by auto
    then show "dict_get d ''embedding'' = JNull"
      by (simp add: get_null_embedding)
  qed
  show "length (batch_files out) = (length (docs ix) + (batch_size - 1)) div batch_size"
    unfolding len using assms(3) by (rule length_chunks)
qed

text \<open>
  Claim C4. For every export run that completes, over an index that nothing else writes
  to during the run: \<open>total_documents\<close> of the written metadata is the sum of the sizes
  of the batch files written, \<open>total_batches\<close> is their number, the batch files have
  distinct names, and every exported document has no embedding (\<open>doc.get('embedding')\<close>
  is \<open>None\<close>: the field is null where the indexed document had one). An index of 2500
  documents exported with batch size 1000 gives exactly 3 batch files and the metadata
  \<open>total_documents = 2500\<close>, \<open>total_batches = 3\<close>.
\<close>

theorem export_metadata_matches_batches:
  assumes "export_index_to_files c index output_dir batch_size = Inr (Some out)"
  shows "dict_get (snd (metadata_file out)) ''total_documents'' =
           JInt (int (sum_list (map (\<lambda>b. length (snd b)) (batch_files out)))) \<and>
         dict_get (snd (metadata_file out)) ''total_batches'' = JInt (int (length (batch_files out))) \<and>
         distinct (map fst (batch_files out)) \<and>
         (\<forall>b \<in> set (batch_files out). \<forall>d \<in> set (snd b). dict_get d ''embedding'' = JNull) \<and>
         (\<forall>ix. indices c index = Some ix \<and> length (docs ix) = 2500 \<and> batch_size = 1000 \<longrightarrow>
            length (batch_files out) = 3 \<and>
            dict_get (snd (metadata_file out)) ''total_documents'' = JInt 2500 \<and>
            dict_get (snd (metadata_file out)) ''total_batches'' = JInt 3)"
proof -
  from export_completed [OF assms] obtain ix0
    where run: "alive c" "indices c index = Some ix0" "0 < batch_size" "batch_size \<le> max_result_window c"
    by blast
  note facts = export_facts [OF run assms]
  have 1: "dict_get (snd (metadata_file out)) ''total_documents'' =
      JInt (int (sum_list (map (\<lambda>b. length (snd b)) (batch_files out))))"
    unfolding facts(3) by (rule facts(1))
  have 5: "length (batch_files out) = 3 \<and>
      dict_get (snd (metadata_file out)) ''total_documents'' = JInt 2500 \<and>
      dict_get (snd (metadata_file out)) ''total_batches'' = JInt 3"
    if "indices c index = Some ix \<and> length (docs ix) = 2500 \<and> batch_size = 1000" for ix
  proof -
    from that run(2) have ix: "ix0 = ix" and n: "length (docs ix0) = 2500" and b: "batch_size = 1000"
      by simp_all
    have three: "length (batch_files out) = 3"
      unfolding facts(6) n b by simp
    have "dict_get (snd (metadata_file out)) ''total_documents'' = JInt 2500"
      unfolding facts(1) n by simp
    moreover have "dict_get (snd (metadata_file out)) ''total_batches'' = JInt 3"
      unfolding facts(2) three by simp
    ultimately show ?thesis
      using three by (intro conjI)
  qed
  have 6: "\<forall>ix. indices c index = Some ix \<and> length (docs ix) = 2500 \<and> batch_size = 1000 \<longrightarrow>
      length (batch_files out) = 3 \<and>
      dict_get (snd (metadata_file out)) ''total_documents'' = JInt 2500 \<and>
      dict_get (snd (metadata_file out)) ''total_batches'' = JInt 3"
  proof (intro allI impI)
    fix ix
    assume "indices c index = Some ix \<and> length (docs ix) = 2500 \<and> batch_size = 1000"
    then show "length (batch_files out) = 3 \<and>
        dict_get (snd (metadata_file out)) ''total_documents'' = JInt 2500 \<and>
        dict_get (snd (metadata_file out)) ''total_batches'' = JInt 3"
      by (rule 5)
  qed
  from 1 facts(2) facts(4) facts(5) 6 show ?thesis
    by (intro conjI)
qed

theorem export_metadata_matches_batches_witness:
  "\<exists>out. export_index_to_files (live_cluster (replicate 2500 embedded_hit)) ''speech_index''
            ''elasticsearch_data'' 1000 = Inr (Some out) \<and>
     length (batch_files out) = 3 \<and>
     sum_list (map (\<lambda>b. length (snd b)) (batch_files out)) = 2500 \<and>
     dict_get (snd (metadata_file out)) ''total_documents'' = JInt 2500 \<and>
     dict_get (snd (metadata_file out)) ''total_batches'' = JInt 3 \<and>
     distinct (map fst (batch_files out))"
proof -
  let ?c = "live_cluster (replicate 2500 embedded_hit)"
  let ?ix = "\<lparr>mappings = JObj [], docs = replicate 2500 embedded_hit\<rparr>"
  have a: "alive ?c"
    by (simp add: live_cluster_def)
  have i: "indices ?c ''speech_index'' = Some ?ix"
    by (simp add: live_cluster_def)
  have p: "(0::nat) < 1000"
    by simp
  have m: "1000 \<le> max_result_window ?c"
    by (simp add: live_cluster_def)
  from export_result [OF a i p m, of "''elasticsearch_data''"]
  obtain out where run: "export_index_to_files ?c ''speech_index'' ''elasticsearch_data'' 1000 = Inr (Some out)"
    by blast
  note th = export_metadata_matches_batches [OF run]
  have h: "indices ?c ''speech_index'' = Some ?ix \<and> length (docs ?ix) = 2500 \<and> (1000::nat) = 1000"
    using i by simp
  have three: "length (batch_files out) = 3 \<and>
      dict_get (snd (metadata_file out)) ''total_documents'' = JInt 2500 \<and>
      dict_get (snd (metadata_file out)) ''total_batches'' = JInt 3"
    using th [THEN conjunct2, THEN conjunct2, THEN conjunct2, THEN conjunct2, rule_format, OF h] .
  have d: "distinct (map fst (batch_files out))"
    using th [THEN conjunct2, THEN conjunct2, THEN conjunct1] .
  have "JInt (int (sum_list (map (\<lambda>b. length (snd b)) (batch_files out)))) = JInt 2500"
    using th [THEN conjunct1] three by simp
  then have s: "sum_list (map (\<lambda>b. length (snd b)) (batch_files out)) = 2500"
    by simp
  from run three s d show ?thesis
    by blast
qed

end
